theory Spec2Isabelle
  imports Main "HOL-Library.Sublist"
begin

section \<open>dorky: word normalisation and platform search dispatch (main.go)\<close>

text \<open>
  A shallow embedding of \<^verbatim>\<open>main.go\<close>. Strings are byte lists. Everything the program
  does beyond computing a value is explicit: standard output, the scan of standard input and
  the remote API calls are events of a trace, the files of the working directory are a map
  from names to contents, \<^verbatim>\<open>os.Exit\<close> and a nil-pointer panic are the left side of a sum.
  What the program cannot decide itself (environment variables, what a remote call answers,
  whether a file can be created, the order in which a Go map is iterated) is read from an
  environment record, indexed by the number of events so far where the answer may change
  over time.
\<close>

subsection \<open>Regular expressions (the fragment of Go's \<^verbatim>\<open>regexp\<close> the program uses)\<close>

text \<open>
  \<^verbatim>\<open>Bol\<close> is \<^verbatim>\<open>^\<close>, \<^verbatim>\<open>Str l\<close> a literal, \<^verbatim>\<open>Plus p\<close> a character class
  followed by \<^verbatim>\<open>+\<close>, \<^verbatim>\<open>Opt r\<close> is \<^verbatim>\<open>(?:r)?\<close>, \<^verbatim>\<open>Cap r\<close> the capturing group
  number 1 (neither pattern of the program has a second one).

  A matching state is the number of bytes consumed so far, the remaining input and the text
  of group 1. \<^verbatim>\<open>ms r st\<close> lists every way in which \<^verbatim>\<open>r\<close> matches a prefix of the
  remaining input, in the order of preference of Go's leftmost-first semantics: a greedy
  \<^verbatim>\<open>+\<close> tries the longest run first and gives characters back one by one, a greedy
  \<^verbatim>\<open>?\<close> tries its body before skipping it.
\<close>

datatype re = Bol | Str string | Plus "char \<Rightarrow> bool" | Cat re re | Opt re | Cap re

type_synonym mstate = "nat \<times> string \<times> string option"

fun ms :: "re \<Rightarrow> mstate \<Rightarrow> mstate list" where
  "ms Bol (i, s, g) = (if i = 0 then [(i, s, g)] else [])"
| "ms (Str l) (i, s, g) = (if prefix l s then [(i + length l, drop (length l) s, g)] else [])"
| "ms (Plus p) (i, s, g) =
     map (\<lambda>n. (i + n, drop n s, g)) (rev [1..<Suc (length (takeWhile p s))])"
| "ms (Cat a b) st = concat (map (ms b) (ms a st))"
| "ms (Opt a) st = ms a st @ [st]"
| "ms (Cap a) (i, s, g) = map (\<lambda>(j, t, _). (j, t, Some (take (j - i) s))) (ms a (i, s, g))"

text \<open>
  \<^verbatim>\<open>re.FindStringSubmatch(s)\<close>: the leftmost match, as the list of the whole match and
  the text of group 1; the empty list stands for Go's nil slice (no match).
\<close>

definition FindStringSubmatch :: "re \<Rightarrow> string \<Rightarrow> string list" where
  "FindStringSubmatch r s =
     (case concat (map (\<lambda>k. map (\<lambda>(j, t, g). [take (j - k) (drop k s),
                                               case g of None \<Rightarrow> [] | Some x \<Rightarrow> x])
                                 (ms r (k, drop k s, None))) [0..<Suc (length s)]) of
        [] \<Rightarrow> []
      | m # _ \<Rightarrow> m)"

text \<open>
  \<^verbatim>\<open>re.ReplaceAllString(src, repl)\<close> for a replacement without \<^verbatim>\<open>$\<close>: scanning from
  the left, each non-empty match is replaced and the scan goes on behind it; a byte at
  which the pattern does not match is copied. (A pattern that matches the empty string is
  outside this fragment: \<^verbatim>\<open>\s+\<close> never does.)
\<close>

function ReplaceAll_at :: "re \<Rightarrow> nat \<Rightarrow> string \<Rightarrow> string \<Rightarrow> string" where
  "ReplaceAll_at r i [] repl = []"
| "ReplaceAll_at r i (c # cs) repl =
     (case ms r (i, c # cs, None) of
        [] \<Rightarrow> c # ReplaceAll_at r (Suc i) cs repl
      | (j, t, _) # _ \<Rightarrow>
          if length t < length (c # cs) then repl @ ReplaceAll_at r j t repl
          else c # ReplaceAll_at r (Suc i) cs repl)"
  by pat_completeness auto
termination
  by (relation "measure (\<lambda>(r, i, s, repl). length s)") auto

definition ReplaceAllString :: "re \<Rightarrow> string \<Rightarrow> string \<Rightarrow> string" where
  "ReplaceAllString r src repl = ReplaceAll_at r 0 src repl"

text \<open>\<^verbatim>\<open>strings.Split(s, sep)\<close> for a separator of one byte.\<close>

function Split :: "string \<Rightarrow> char \<Rightarrow> string list" where
  "Split s sep =
     (case dropWhile (\<lambda>c. c \<noteq> sep) s of
        [] \<Rightarrow> [s]
      | _ # rest \<Rightarrow> takeWhile (\<lambda>c. c \<noteq> sep) s # Split rest sep)"
  by pat_completeness auto
termination
proof (relation "measure (\<lambda>(s, sep). length s)")
  fix s :: string and sep x rest
  assume "dropWhile (\<lambda>c. c \<noteq> sep) s = x # rest"
  then have "length rest < length (dropWhile (\<lambda>c. c \<noteq> sep) s)" by simp
  also have "\<dots> \<le> length s" by (rule length_dropWhile_le)
  finally show "((rest, sep), (s, sep)) \<in> measure (\<lambda>(s, sep). length s)" by simp
qed simp

declare Split.simps [simp del]

subsection \<open>Configuration and the two patterns\<close>

record config =
  orgFlag :: bool
  repoFlag :: bool
  userFlag :: bool
  maxFlag :: int
  cleanFlag :: bool
  ghOnlyFlag :: bool
  glOnlyFlag :: bool
  simpleFlag :: bool
  verboseFlag :: bool

text \<open>
  \<^verbatim>\<open>maxFlag\<close> is only handed on to the API clients, no arithmetic is done on it.
  The program keeps the parsed flags in the global \<^verbatim>\<open>flags\<close> and also passes them
  on as \<^verbatim>\<open>cfg\<close>. Below, a function that reads the global (itself or through a callee)
  has a first argument \<^verbatim>\<open>flags\<close>; one that reads its parameter has \<^verbatim>\<open>cfg\<close>.
\<close>

text \<open>RE2's \<^verbatim>\<open>\s\<close> is \<^verbatim>\<open>[\t\n\f\r ]\<close>.\<close>

definition is_space :: "char \<Rightarrow> bool" where
  "is_space c = (c = CHR 0x09 \<or> c = CHR 0x0A \<or> c = CHR 0x0C \<or> c = CHR 0x0D \<or> c = CHR 0x20)"

text \<open>\<^verbatim>\<open>^https?://(?:www\.)?([^/]+)\<close>\<close>

definition urlRegexp :: re where
  "urlRegexp = Cat Bol (Cat (Str ''http'') (Cat (Opt (Str ''s'')) (Cat (Str ''://'')
                 (Cat (Opt (Str ''www.'')) (Cap (Plus (\<lambda>c. c \<noteq> CHR ''/'')))))))"

text \<open>\<^verbatim>\<open>\s+\<close>\<close>

definition spaceRegexp :: re where
  "spaceRegexp = Plus is_space"

subsection \<open>Word collector and normaliser\<close>

definition cleanWord :: "string \<Rightarrow> string" where
  "cleanWord word =
     (let match = FindStringSubmatch urlRegexp word
      in if length match > 1 then match ! 1 else word)"

definition removeWhitespace :: "string \<Rightarrow> string" where
  "removeWhitespace word =
     (let removedSpaces = ReplaceAllString spaceRegexp word '''';
          withHyphens = ReplaceAllString spaceRegexp word ''-''
      in removedSpaces @ ''\<newline>'' @ withHyphens)"

text \<open>
  The word set \<^verbatim>\<open>map[string]struct{}\<close> is the list of its keys, without duplicates;
  the order in which \<^verbatim>\<open>range\<close> visits them is chosen by the environment (below).
\<close>

definition addWordToMap :: "string list \<Rightarrow> string \<Rightarrow> string list" where
  "addWordToMap words word = (if word \<notin> set words then words @ [word] else words)"

definition processWord :: "string \<Rightarrow> string list \<Rightarrow> config \<Rightarrow> string list" where
  "processWord word words cfg =
     (let word1 = (if cleanFlag cfg then cleanWord word else word);
          words1 = addWordToMap words word1;
          word2 = removeWhitespace word1;
          wordLines = Split word2 (CHR 0x0A)
      in fold (\<lambda>w ws. addWordToMap ws w) wordLines words1)"

subsection \<open>The world and the environment\<close>

datatype api_call =
    Search_Users string int
  | Search_Repositories string int
  | ListGroups string int
  | ListUsers string int
  | ListProjects string int

datatype event = Stdout string | Stdin_scan | Api api_call

record world =
  trace :: "event list"
  fs :: "string \<rightharpoonup> string"

text \<open>
  \<^verbatim>\<open>github_api\<close> and \<^verbatim>\<open>gitlab_api\<close> answer a remote call with an error message
  (\<^verbatim>\<open>Inl\<close>) or with the display-name fields of the items found. go-github's fields are
  pointers (\<^verbatim>\<open>*org.Login\<close>, \<^verbatim>\<open>*repo.FullName\<close>), so an item's name may be nil;
  go-gitlab's are plain strings. (A nil element inside a result slice, which neither client
  produces from a JSON array of objects, is not modelled.) \<^verbatim>\<open>github_api\<close> stands for
  the whole client, the rate-limited transport included.

  \<^verbatim>\<open>os_Create_err\<close> says whether \<^verbatim>\<open>os.Create\<close> fails, \<^verbatim>\<open>gitlab_NewClient_err\<close>
  whether \<^verbatim>\<open>gitlab.NewClient\<close> does. \<^verbatim>\<open>stdin_lines\<close> are the lines the scanner
  yields and \<^verbatim>\<open>stdin_err\<close> is \<^verbatim>\<open>scanner.Err()\<close> after them; \<^verbatim>\<open>TrimSpace\<close> is
  \<^verbatim>\<open>strings.TrimSpace\<close>. \<^verbatim>\<open>range_order\<close> is the order in which
  \<^verbatim>\<open>for word := range words\<close> visits the keys.
\<close>

record env =
  getenv :: "string \<Rightarrow> string"
  stdin_lines :: "string list"
  stdin_err :: "string option"
  TrimSpace :: "string \<Rightarrow> string"
  range_order :: "string list \<Rightarrow> string list"
  github_api :: "nat \<Rightarrow> api_call \<Rightarrow> string + string option list"
  gitlab_api :: "nat \<Rightarrow> api_call \<Rightarrow> string + string list"
  gitlab_NewClient_err :: "string \<Rightarrow> string option"
  os_Create_err :: "nat \<Rightarrow> string \<Rightarrow> string option"

datatype halt = OsExit nat | NilPointer

type_synonym outcome = "(halt \<times> world) + world"

definition andThen :: "outcome \<Rightarrow> (world \<Rightarrow> outcome) \<Rightarrow> outcome" where
  "andThen r f = (case r of Inl h \<Rightarrow> Inl h | Inr w \<Rightarrow> f w)"

definition exit_status :: "outcome \<Rightarrow> nat \<times> world" where
  "exit_status r =
     (case r of
        Inl (OsExit n, w) \<Rightarrow> (n, w)
      | Inl (NilPointer, w) \<Rightarrow> (2, w)
      | Inr w \<Rightarrow> (0, w))"

definition Print :: "string \<Rightarrow> world \<Rightarrow> world" where
  "Print s w = w\<lparr>trace := trace w @ [Stdout s]\<rparr>"

definition call_api :: "api_call \<Rightarrow> world \<Rightarrow> world" where
  "call_api c w = w\<lparr>trace := trace w @ [Api c]\<rparr>"

definition verbosePrint :: "config \<Rightarrow> string \<Rightarrow> world \<Rightarrow> world" where
  "verbosePrint flags s w = (if verboseFlag flags then Print s w else w)"

definition validateFlags :: "config \<Rightarrow> config \<Rightarrow> world \<Rightarrow> outcome" where
  "validateFlags flags cfg w =
     (if \<not> (orgFlag cfg \<or> repoFlag cfg \<or> userFlag cfg)
      then Inl (OsExit 1,
                Print ''At least one search flag (-o, -r, or -u) must be specified\<newline>'' w)
      else Inr (verbosePrint flags ''Flags validated.\<newline>'' w))"

definition checkScannerError :: "env \<Rightarrow> world \<Rightarrow> outcome" where
  "checkScannerError e w =
     (case stdin_err e of
        Some err \<Rightarrow> Inl (OsExit 1, Print (''Error reading stdin: '' @ err @ ''\<newline>'') w)
      | None \<Rightarrow> Inr w)"

definition readAndCleanWords ::
  "env \<Rightarrow> config \<Rightarrow> string list \<Rightarrow> world \<Rightarrow> (halt \<times> world) + (string list \<times> world)" where
  "readAndCleanWords e cfg args w =
     (if length args > 0
      then Inr (fold (\<lambda>word words. processWord word words cfg) args [], w)
      else
        let w1 = w\<lparr>trace := trace w @ [Stdin_scan]\<rparr>;
            words = fold (\<lambda>line words. processWord (TrimSpace e line) words cfg)
                         (stdin_lines e) []
        in case checkScannerError e w1 of
             Inl h \<Rightarrow> Inl h
           | Inr w2 \<Rightarrow> Inr (words, w2))"

subsection \<open>Result reporter\<close>

definition printResults :: "config \<Rightarrow> string \<Rightarrow> string list \<Rightarrow> world \<Rightarrow> world" where
  "printResults flags header results w =
     (if simpleFlag flags
      then fold (\<lambda>result. Print (result @ ''\<newline>'')) results w
      else fold (\<lambda>result. Print (''- '' @ result @ ''\<newline>'')) results
             (Print (''\<newline>'' @ header @ '':\<newline>'') w))"

text \<open>
  \<^verbatim>\<open>os.Create\<close> truncates the file or creates it empty; \<^verbatim>\<open>f.WriteString\<close> appends.
  The program discards the result of \<^verbatim>\<open>WriteString\<close>; in this file system every write
  is performed.
\<close>

definition os_Create :: "string \<Rightarrow> world \<Rightarrow> world" where
  "os_Create name w = w\<lparr>fs := (fs w)(name \<mapsto> [])\<rparr>"

definition WriteString :: "string \<Rightarrow> string \<Rightarrow> world \<Rightarrow> world" where
  "WriteString name s w =
     w\<lparr>fs := (fs w)(name \<mapsto> (case fs w name of None \<Rightarrow> [] | Some old \<Rightarrow> old) @ s)\<rparr>"

text \<open>
  The block that ends each search function: \<^verbatim>\<open>f, err := os.Create(name)\<close>, on an error
  print it and return, otherwise write each name and a newline. The flag returned is False
  where the source returns early.
\<close>

definition save_names :: "env \<Rightarrow> string \<Rightarrow> string list \<Rightarrow> world \<Rightarrow> bool \<times> world" where
  "save_names e name names w =
     (case os_Create_err e (length (trace w)) name of
        Some err \<Rightarrow> (False, Print (err @ ''\<newline>'') w)
      | None \<Rightarrow> (True, fold (\<lambda>n. WriteString name (n @ ''\<newline>'')) names (os_Create name w)))"

text \<open>What a result file holds after its names were written: one name per line.\<close>

definition file_lines :: "string list \<Rightarrow> string" where
  "file_lines names = concat (map (\<lambda>n. n @ ''\<newline>'') names)"

subsection \<open>GitHub search\<close>

text \<open>
  The loop \<^verbatim>\<open>orgLogins[i] = *org.Login\<close> is \<^verbatim>\<open>those\<close>: it panics at a nil pointer
  (\<^verbatim>\<open>None\<close>), before anything is printed or written. The client argument of the five
  search functions is left out: what it answers is \<^verbatim>\<open>github_api\<close>, \<^verbatim>\<open>gitlab_api\<close>.
\<close>

definition searchGitHubOrganizations :: "config \<Rightarrow> env \<Rightarrow> string \<Rightarrow> int \<Rightarrow> world \<Rightarrow> outcome" where
  "searchGitHubOrganizations flags e query maxResults w =
     (let call = Search_Users (''type:org '' @ query) maxResults;
          w1 = call_api call w
      in case github_api e (length (trace w)) call of
           Inl err \<Rightarrow> Inr (Print (''Error searching organizations: '' @ err @ ''\<newline>'') w1)
         | Inr users \<Rightarrow>
             (case those users of
                None \<Rightarrow> Inl (NilPointer, w1)
              | Some orgLogins \<Rightarrow>
                  Inr (snd (save_names e ''github_organizations.txt'' orgLogins
                         (printResults flags
                            (''GitHub organizations matching '' @ [CHR 0x27] @ query @ [CHR 0x27])
                            orgLogins w1)))))"

definition searchGitHubRepositories :: "config \<Rightarrow> env \<Rightarrow> string \<Rightarrow> int \<Rightarrow> world \<Rightarrow> outcome" where
  "searchGitHubRepositories flags e query maxResults w =
     (let call = Search_Repositories query maxResults;
          w1 = call_api call w
      in case github_api e (length (trace w)) call of
           Inl err \<Rightarrow> Inr (Print (''Error searching repositories: '' @ err @ ''\<newline>'') w1)
         | Inr repos \<Rightarrow>
             (case those repos of
                None \<Rightarrow> Inl (NilPointer, w1)
              | Some repoNames \<Rightarrow>
                  Inr (snd (save_names e ''github_repositories.txt'' repoNames
                         (printResults flags
                            (''GitHub repositories matching '' @ [CHR 0x27] @ query @ [CHR 0x27])
                            repoNames w1)))))"

definition searchGitHubUsers :: "config \<Rightarrow> env \<Rightarrow> string \<Rightarrow> int \<Rightarrow> world \<Rightarrow> outcome" where
  "searchGitHubUsers flags e query maxResults w =
     (let call = Search_Users (''type:user '' @ query) maxResults;
          w1 = call_api call w
      in case github_api e (length (trace w)) call of
           Inl err \<Rightarrow> Inr (Print (''Error searching users: '' @ err @ ''\<newline>'') w1)
         | Inr users \<Rightarrow>
             (case those users of
                None \<Rightarrow> Inl (NilPointer, w1)
              | Some userLogins \<Rightarrow>
                  Inr (snd (save_names e ''github_users.txt'' userLogins
                         (printResults flags
                            (''GitHub users matching '' @ [CHR 0x27] @ query @ [CHR 0x27])
                            userLogins w1)))))"

datatype github_Client = GitHub_Client string

datatype gitlab_Client = GitLab_Client string

definition searchGitHub ::
  "config \<Rightarrow> env \<Rightarrow> github_Client option \<Rightarrow> string \<Rightarrow> config \<Rightarrow> world \<Rightarrow> outcome" where
  "searchGitHub flags e client query cfg w =
     (if client = None then Inr w
      else
        andThen (if orgFlag cfg then searchGitHubOrganizations flags e query (maxFlag cfg) w
                 else Inr w)
          (\<lambda>w. andThen (if repoFlag cfg then searchGitHubRepositories flags e query (maxFlag cfg) w
                         else Inr w)
                  (\<lambda>w. if userFlag cfg then searchGitHubUsers flags e query (maxFlag cfg) w
                        else Inr w)))"

definition createGitHubClient :: "env \<Rightarrow> github_Client option \<times> string option" where
  "createGitHubClient e =
     (let token = getenv e ''GITHUB_ACCESS_TOKEN''
      in if token = '''' then (None, Some ''GITHUB_ACCESS_TOKEN environment variable is not set'')
         else (Some (GitHub_Client token), None))"

subsection \<open>GitLab search\<close>

definition searchGitLabGroupsAndUsers :: "config \<Rightarrow> env \<Rightarrow> string \<Rightarrow> int \<Rightarrow> world \<Rightarrow> world" where
  "searchGitLabGroupsAndUsers flags e query maxResults w =
     (let w1 = call_api (ListGroups query maxResults) w
      in case gitlab_api e (length (trace w)) (ListGroups query maxResults) of
           Inl err \<Rightarrow> Print (''Error searching GitLab groups: '' @ err @ ''\<newline>'') w1
         | Inr groupFullPaths \<Rightarrow>
             let (ok, w2) =
                   (if orgFlag flags
                    then save_names e ''gitlab_groups.txt'' groupFullPaths
                           (printResults flags
                              (''GitLab groups matching '' @ [CHR 0x27] @ query @ [CHR 0x27])
                              groupFullPaths w1)
                    else (True, w1))
             in if \<not> ok then w2
                else
                  let w3 = call_api (ListUsers query maxResults) w2
                  in case gitlab_api e (length (trace w2)) (ListUsers query maxResults) of
                       Inl err \<Rightarrow> Print (''Error searching GitLab users: '' @ err @ ''\<newline>'') w3
                     | Inr userUsernames \<Rightarrow>
                         if userFlag flags
                         then snd (save_names e ''gitlab_users.txt'' userUsernames
                                (printResults flags
                                   (''GitLab users matching '' @ [CHR 0x27] @ query @ [CHR 0x27])
                                   userUsernames w3))
                         else w3)"

definition searchGitLabProjects :: "config \<Rightarrow> env \<Rightarrow> string \<Rightarrow> int \<Rightarrow> world \<Rightarrow> world" where
  "searchGitLabProjects flags e query maxResults w =
     (let w1 = call_api (ListProjects query maxResults) w
      in case gitlab_api e (length (trace w)) (ListProjects query maxResults) of
           Inl err \<Rightarrow> Print (''Error searching GitLab projects: '' @ err @ ''\<newline>'') w1
         | Inr projectFullPaths \<Rightarrow>
             snd (save_names e ''gitlab_projects.txt'' projectFullPaths
                    (printResults flags
                       (''GitLab projects matching '' @ [CHR 0x27] @ query @ [CHR 0x27])
                       projectFullPaths w1)))"

definition searchGitLab ::
  "config \<Rightarrow> env \<Rightarrow> gitlab_Client option \<Rightarrow> string \<Rightarrow> config \<Rightarrow> world \<Rightarrow> world" where
  "searchGitLab flags e client query cfg w =
     (if client = None then w
      else
        let w1 = (if orgFlag cfg \<or> userFlag cfg
                  then searchGitLabGroupsAndUsers flags e query (maxFlag cfg) w else w)
        in if repoFlag cfg then searchGitLabProjects flags e query (maxFlag cfg) w1 else w1)"

definition createGitLabClient :: "env \<Rightarrow> gitlab_Client option \<times> string option" where
  "createGitLabClient e =
     (let token = getenv e ''GITLAB_ACCESS_TOKEN''
      in if token = '''' then (None, Some ''GITLAB_ACCESS_TOKEN environment variable is not set'')
         else (case gitlab_NewClient_err e token of
                 Some err \<Rightarrow> (None, Some err)
               | None \<Rightarrow> (Some (GitLab_Client token), None)))"

subsection \<open>Platform search dispatcher and main\<close>

text \<open>The body of \<^verbatim>\<open>for word := range words\<close>, over the words in the order visited.\<close>

fun search_words ::
  "config \<Rightarrow> env \<Rightarrow> github_Client option \<times> string option \<Rightarrow>
   gitlab_Client option \<times> string option \<Rightarrow> config \<Rightarrow> string list \<Rightarrow> world \<Rightarrow> outcome" where
  "search_words flags e gh gl cfg [] w = Inr w"
| "search_words flags e gh gl cfg (word # rest) w =
     andThen
       (if \<not> glOnlyFlag cfg \<and> snd gh = None
        then searchGitHub flags e (fst gh) word cfg
               (verbosePrint flags (''Searching GitHub for word: '' @ word @ ''\<newline>'') w)
        else Inr w)
       (\<lambda>w. search_words flags e gh gl cfg rest
               (if \<not> ghOnlyFlag cfg \<and> snd gl = None
                then searchGitLab flags e (fst gl) word cfg
                       (verbosePrint flags (''Searching GitLab for word: '' @ word @ ''\<newline>'') w)
                else w))"

definition searchPlatforms :: "config \<Rightarrow> env \<Rightarrow> string list \<Rightarrow> config \<Rightarrow> world \<Rightarrow> outcome" where
  "searchPlatforms flags e words cfg w =
     (let gh = createGitHubClient e;
          gl = createGitLabClient e;
          w1 = (case snd gh of
                  Some ghErr \<Rightarrow> Print (''Error creating GitHub client: '' @ ghErr @ ''\<newline>'') w
                | None \<Rightarrow> w);
          w2 = (case snd gl of
                  Some glErr \<Rightarrow> Print (''Error creating GitLab client: '' @ glErr @ ''\<newline>'') w1
                | None \<Rightarrow> w1)
      in search_words flags e gh gl cfg (range_order e words) w2)"

text \<open>
  \<^verbatim>\<open>main\<close> after \<^verbatim>\<open>flag.Parse()\<close>: \<^verbatim>\<open>flags\<close> are the parsed flags, \<^verbatim>\<open>args\<close> is
  \<^verbatim>\<open>flag.Args()\<close>. The result is the exit status of the process and the final world.
\<close>

definition main :: "config \<Rightarrow> env \<Rightarrow> string list \<Rightarrow> world \<Rightarrow> nat \<times> world" where
  "main flags e args w =
     exit_status
       (andThen (validateFlags flags flags w)
          (\<lambda>w. case readAndCleanWords e flags args
                       (verbosePrint flags ''Reading and cleaning words...\<newline>'' w) of
                  Inl h \<Rightarrow> Inl h
                | Inr (words, w) \<Rightarrow>
                    andThen
                      (searchPlatforms flags e words flags
                         (verbosePrint flags ''Searching platforms...\<newline>''
                            (verbosePrint flags ''Words cleaned.\<newline>'' w)))
                      (\<lambda>w. Inr (verbosePrint flags ''Platform search completed.\<newline>'' w))))"

subsection \<open>Rate-limited transport\<close>

text \<open>
  \<^verbatim>\<open>limiter\<close> is what \<^verbatim>\<open>t.limiter.Wait(context.Background())\<close> returns at its n-th
  call (\<^verbatim>\<open>None\<close> is a nil error), \<^verbatim>\<open>transport\<close> what the wrapped transport's
  \<^verbatim>\<open>RoundTrip\<close> returns for a request, as the pair of Go's two results. The state counts
  the waits and lists the requests handed to the wrapped transport. How long a wait
  lasts is not part of the model.
\<close>

record ('req, 'resp) rateLimitedTransport =
  transport :: "'req \<Rightarrow> nat \<Rightarrow> 'resp option \<times> string option"
  limiter :: "nat \<Rightarrow> string option"

record 'req wire =
  waits :: nat
  forwarded :: "'req list"

definition RoundTrip ::
  "('req, 'resp) rateLimitedTransport \<Rightarrow> 'req \<Rightarrow> 'req wire \<Rightarrow>
   ('resp option \<times> string option) \<times> 'req wire" where
  "RoundTrip t req s =
     (case limiter t (waits s) of
        Some err \<Rightarrow> ((None, Some err), s\<lparr>waits := Suc (waits s)\<rparr>)
      | None \<Rightarrow> (transport t req (length (forwarded s)),
                 s\<lparr>waits := Suc (waits s), forwarded := forwarded s @ [req]\<rparr>))"

subsection \<open>The host of a URL, in closed form\<close>

text \<open>
  What the host-extraction pattern is described to do (\<^verbatim>\<open>scheme://[www.]host...\<close> gives
  \<^verbatim>\<open>host...\<close>), written without the pattern, to be compared with \<^verbatim>\<open>cleanWord\<close>:
  \<^verbatim>\<open>scheme_rest\<close> is what follows \<^verbatim>\<open>http://\<close> or \<^verbatim>\<open>https://\<close>, \<^verbatim>\<open>host_part\<close>
  the bytes up to the first \<^verbatim>\<open>/\<close>, behind a leading \<^verbatim>\<open>www.\<close> when something is left
  there.
\<close>

definition scheme_rest :: "string \<Rightarrow> string option" where
  "scheme_rest w =
     (if prefix ''https://'' w then Some (drop 8 w)
      else if prefix ''http://'' w then Some (drop 7 w) else None)"

definition host_part :: "string \<Rightarrow> string" where
  "host_part r =
     (if prefix ''www.'' r \<and> takeWhile (\<lambda>c. c \<noteq> CHR ''/'') (drop 4 r) \<noteq> []
      then takeWhile (\<lambda>c. c \<noteq> CHR ''/'') (drop 4 r)
      else takeWhile (\<lambda>c. c \<noteq> CHR ''/'') r)"

subsection \<open>The second half of the GitLab group and user search\<close>

text \<open>
  The part of \<^verbatim>\<open>searchGitLabGroupsAndUsers\<close> from the call of \<^verbatim>\<open>client.Users.ListUsers\<close>
  to the end, on its own, to state what the function does once it has passed the group
  search.
\<close>

definition gitlab_users_half :: "config \<Rightarrow> env \<Rightarrow> string \<Rightarrow> int \<Rightarrow> world \<Rightarrow> world" where
  "gitlab_users_half flags e query maxResults w2 =
     (let w3 = call_api (ListUsers query maxResults) w2
      in case gitlab_api e (length (trace w2)) (ListUsers query maxResults) of
           Inl err \<Rightarrow> Print (''Error searching GitLab users: '' @ err @ ''\<newline>'') w3
         | Inr userUsernames \<Rightarrow>
             if userFlag flags
             then snd (save_names e ''gitlab_users.txt'' userUsernames
                    (printResults flags
                       (''GitLab users matching '' @ [CHR 0x27] @ query @ [CHR 0x27])
                       userUsernames w3))
             else w3)"

subsection \<open>Observations on a trace\<close>

text \<open>The remote calls of a trace, in order, and those among them that go to GitHub.\<close>

fun calls_of :: "event list \<Rightarrow> api_call list" where
  "calls_of [] = []"
| "calls_of (Api c # es) = c # calls_of es"
| "calls_of (_ # es) = calls_of es"

fun is_github_call :: "api_call \<Rightarrow> bool" where
  "is_github_call (Search_Users q m) = True"
| "is_github_call (Search_Repositories q m) = True"
| "is_github_call _ = False"

definition github_calls :: "world \<Rightarrow> api_call list" where
  "github_calls w = filter is_github_call (calls_of (trace w))"

definition gitlab_calls :: "world \<Rightarrow> api_call list" where
  "gitlab_calls w = filter (\<lambda>c. \<not> is_github_call c) (calls_of (trace w))"

subsection \<open>The most recent successful call for a result file\<close>

text \<open>
  What the claim on the result files speaks of, read off a trace. The call at position
  \<^verbatim>\<open>k\<close> of a trace was answered by the environment at index \<^verbatim>\<open>k\<close>; it is successful
  when the answer is a list of names (for GitHub: none of them nil). \<^verbatim>\<open>file_of_call\<close> is
  the result file of the (platform, category) pair a call searches for: GitHub's user
  search serves organizations and users, told apart by the qualifier of the query; a GitLab
  group or user listing serves its category only when that category's flag is set.
\<close>

definition answer :: "env \<Rightarrow> nat \<Rightarrow> api_call \<Rightarrow> string list option" where
  "answer e k c =
     (if is_github_call c
      then (case github_api e k c of Inl err \<Rightarrow> None | Inr items \<Rightarrow> those items)
      else (case gitlab_api e k c of Inl err \<Rightarrow> None | Inr names \<Rightarrow> Some names))"

fun file_of_call :: "config \<Rightarrow> api_call \<Rightarrow> string option" where
  "file_of_call flags (Search_Users q m) =
     (if prefix ''type:org '' q then Some ''github_organizations.txt''
      else if prefix ''type:user '' q then Some ''github_users.txt'' else None)"
| "file_of_call flags (Search_Repositories q m) = Some ''github_repositories.txt''"
| "file_of_call flags (ListGroups q m) = (if orgFlag flags then Some ''gitlab_groups.txt'' else None)"
| "file_of_call flags (ListUsers q m) = (if userFlag flags then Some ''gitlab_users.txt'' else None)"
| "file_of_call flags (ListProjects q m) = Some ''gitlab_projects.txt''"

fun last_ok_from ::
  "env \<Rightarrow> config \<Rightarrow> string \<Rightarrow> nat \<Rightarrow> event list \<Rightarrow> string list option \<Rightarrow> string list option" where
  "last_ok_from e flags F k [] acc = acc"
| "last_ok_from e flags F k (Api c # evs) acc =
     last_ok_from e flags F (Suc k) evs
       (if file_of_call flags c = Some F
        then (case answer e k c of Some names \<Rightarrow> Some names | None \<Rightarrow> acc)
        else acc)"
| "last_ok_from e flags F k (_ # evs) acc = last_ok_from e flags F (Suc k) evs acc"

definition most_recent_ok :: "env \<Rightarrow> config \<Rightarrow> string \<Rightarrow> event list \<Rightarrow> string list option" where
  "most_recent_ok e flags F tr = last_ok_from e flags F 0 tr None"

text \<open>
  Every file holds the names of the most recent successful call for it, one per line, or
  what it held at the start (\<^verbatim>\<open>fs0\<close>) when there was no such call.
\<close>

definition files_reflect :: "env \<Rightarrow> config \<Rightarrow> (string \<rightharpoonup> string) \<Rightarrow> world \<Rightarrow> bool" where
  "files_reflect e flags fs0 w =
     (\<forall>F. fs w F = (case most_recent_ok e flags F (trace w) of
                       None \<Rightarrow> fs0 F
                     | Some names \<Rightarrow> Some (file_lines names)))"

text \<open>The world in which a computation ended, normally or not.\<close>

definition world_of :: "outcome \<Rightarrow> world" where
  "world_of r = (case r of Inl (h, w) \<Rightarrow> w | Inr w \<Rightarrow> w)"

text \<open>
  Every list of items that GitHub answers with has all its names: no \<^verbatim>\<open>Login\<close> or
  \<^verbatim>\<open>FullName\<close> pointer is nil. Errors are not restricted.
\<close>

definition names_present :: "env \<Rightarrow> bool" where
  "names_present e =
     (\<forall>n c. case github_api e n c of Inl err \<Rightarrow> True | Inr items \<Rightarrow> None \<notin> set items)"

subsection \<open>Example inputs\<close>

definition flags_ex :: config where
  "flags_ex = \<lparr>orgFlag = True, repoFlag = False, userFlag = True, maxFlag = 10,
     cleanFlag = False, ghOnlyFlag = False, glOnlyFlag = False, simpleFlag = True,
     verboseFlag = False\<rparr>"

definition flags_repo :: config where
  "flags_repo = \<lparr>orgFlag = False, repoFlag = True, userFlag = False, maxFlag = 10,
     cleanFlag = False, ghOnlyFlag = False, glOnlyFlag = False, simpleFlag = True,
     verboseFlag = False\<rparr>"

definition flags_user :: config where
  "flags_user = \<lparr>orgFlag = False, repoFlag = False, userFlag = True, maxFlag = 10,
     cleanFlag = False, ghOnlyFlag = False, glOnlyFlag = False, simpleFlag = True,
     verboseFlag = False\<rparr>"

definition flags_gl :: config where
  "flags_gl = flags_repo\<lparr>glOnlyFlag := True\<rparr>"

definition flags_both :: config where
  "flags_both = flags_repo\<lparr>ghOnlyFlag := True, glOnlyFlag := True\<rparr>"

definition flags_none :: config where
  "flags_none = flags_repo\<lparr>repoFlag := False\<rparr>"

definition world0 :: world where
  "world0 = \<lparr>trace = [], fs = Map.empty\<rparr>"

text \<open>
  An environment with both tokens in which every remote call succeeds: GitHub finds
  the users \<^verbatim>\<open>acme\<close> and \<^verbatim>\<open>acme-labs\<close> and the repository \<^verbatim>\<open>acme/\<close> followed by
  the query, GitLab finds the query itself.
\<close>

definition env_ok :: env where
  "env_ok = \<lparr>
     getenv = (\<lambda>k. if k = ''GITHUB_ACCESS_TOKEN'' then ''gh-token''
                    else if k = ''GITLAB_ACCESS_TOKEN'' then ''gl-token'' else ''''),
     stdin_lines = [],
     stdin_err = None,
     TrimSpace = (\<lambda>s. s),
     range_order = (\<lambda>ws. ws),
     github_api = (\<lambda>n c. case c of Search_Repositories q m \<Rightarrow> Inr [Some (''acme/'' @ q)]
                            | _ \<Rightarrow> Inr [Some ''acme'', Some ''acme-labs'']),
     gitlab_api = (\<lambda>n c. case c of ListGroups q m \<Rightarrow> Inr [q] | ListUsers q m \<Rightarrow> Inr [q]
                            | ListProjects q m \<Rightarrow> Inr [q] | _ \<Rightarrow> Inr []),
     gitlab_NewClient_err = (\<lambda>t. None),
     os_Create_err = (\<lambda>n f. None)\<rparr>"

text \<open>A transport whose limiter admits the first request and fails from then on.\<close>

definition transport_ex :: "(string, string) rateLimitedTransport" where
  "transport_ex = \<lparr>
     transport = (\<lambda>req n. (Some ''200 OK'', None)),
     limiter = (\<lambda>n. if n = 0 then None
                     else Some ''rate: Wait(n=1) would exceed context deadline'')\<rparr>"

text \<open>
  As \<^verbatim>\<open>env_ok\<close>, but GitLab's group listing fails and \<^verbatim>\<open>GITHUB_ACCESS_TOKEN\<close> is not
  set.
\<close>

definition env_groups_down :: env where
  "env_groups_down = env_ok\<lparr>
     getenv := (\<lambda>k. if k = ''GITLAB_ACCESS_TOKEN'' then ''gl-token'' else ''''),
     gitlab_api := (\<lambda>n c. case c of ListGroups q m \<Rightarrow> Inl ''503 Service Unavailable''
                             | ListUsers q m \<Rightarrow> Inr [q]
                             | ListProjects q m \<Rightarrow> Inr [q] | _ \<Rightarrow> Inr [])\<rparr>"

text \<open>As \<^verbatim>\<open>env_ok\<close>, but GitHub's organization search fails.\<close>

definition env_org_down :: env where
  "env_org_down = env_ok\<lparr>
     github_api := (\<lambda>n c. case c of
                             Search_Users q m \<Rightarrow>
                               if prefix ''type:org '' q then Inl ''403 Forbidden''
                               else Inr [Some ''acme'']
                           | _ \<Rightarrow> Inr [])\<rparr>"

section \<open>Lemmas on the regular expressions\<close>

lemma concat_map_Nil: "(\<And>k. k \<in> set ks \<Longrightarrow> f k = []) \<Longrightarrow> concat (map f ks) = []"
  by (induction ks) auto

lemma FindStringSubmatch_Bol:
  "FindStringSubmatch (Cat Bol r) s =
     (case ms r (0, s, None) of
        [] \<Rightarrow> []
      | (j, t, g) # _ \<Rightarrow> [take j s, case g of None \<Rightarrow> [] | Some x \<Rightarrow> x])"
proof -
  let ?f = "\<lambda>k. map (\<lambda>(j, t, g). [take (j - k) (drop k s), case g of None \<Rightarrow> [] | Some x \<Rightarrow> x])
                    (ms (Cat Bol r) (k, drop k s, None))"
  have "[0..<Suc (length s)] = 0 # [1..<Suc (length s)]"
    by (simp add: upt_rec)
  moreover have "concat (map ?f [1..<Suc (length s)]) = []"
    by (rule concat_map_Nil) auto
  ultimately have "concat (map ?f [0..<Suc (length s)]) = ?f 0"
    by simp
  then show ?thesis
    by (simp add: FindStringSubmatch_def split: list.splits)
qed

lemma ms_Plus_hd:
  "takeWhile p s \<noteq> [] \<Longrightarrow>
   \<exists>rest. ms (Plus p) (i, s, g) = (i + length (takeWhile p s), dropWhile p s, g) # rest"
  by (cases "length (takeWhile p s)") (simp_all add: dropWhile_eq_drop)

lemma ms_Cap_Plus_hd:
  assumes ne: "takeWhile p s \<noteq> []"
  shows "\<exists>rest. ms (Cap (Plus p)) (i, s, g) =
           (i + length (takeWhile p s), dropWhile p s, Some (takeWhile p s)) # rest"
proof -
  from ms_Plus_hd [OF ne, of i g] obtain rest where
    r: "ms (Plus p) (i, s, g) = (i + length (takeWhile p s), dropWhile p s, g) # rest" by blast
  have "take (length (takeWhile p s)) s = takeWhile p s"
    by (metis append_eq_conv_conj takeWhile_dropWhile_id)
  then show ?thesis
    by (simp only: ms.simps(6) r) simp
qed

lemma ms_Cap_Plus_Nil: "takeWhile p s = [] \<Longrightarrow> ms (Cap (Plus p)) (i, s, g) = []"
  by simp

lemma prefix_append_drop: "prefix (a @ b) w = (prefix a w \<and> prefix b (drop (length a) w))"
proof (induction a arbitrary: w)
  case Nil
  then show ?case by simp
next
  case (Cons x a)
  then show ?case by (cases w) auto
qed

lemma ms_Cat_Str:
  "ms (Cat (Str l) b) (i, s, g) =
     (if prefix l s then ms b (i + length l, drop (length l) s, g) else [])"
  by simp

lemma ms_Cat_Opt_Str:
  "ms (Cat (Opt (Str l)) b) (i, s, g) =
     (if prefix l s then ms b (i + length l, drop (length l) s, g) else []) @ ms b (i, s, g)"
  by simp

lemma ms_Cat_Opt_www:
  "ms (Cat (Opt (Str ''www.'')) b) (i, s, g) =
     (if prefix ''www.'' s then ms b (i + 4, drop 4 s, g) else []) @ ms b (i, s, g)"
proof -
  have len: "length ''www.'' = 4" by simp
  show ?thesis by (simp only: ms_Cat_Opt_Str len)
qed

text \<open>The pattern behind the scheme: \<^verbatim>\<open>(?:www\.)?([^/]+)\<close>.\<close>

lemma ms_host_Nil:
  assumes "host_part r = []"
  shows "ms (Cat (Opt (Str ''www.'')) (Cap (Plus (\<lambda>c. c \<noteq> CHR ''/'')))) (i, r, None) = []"
proof -
  from assms have a: "takeWhile (\<lambda>c. c \<noteq> CHR ''/'') r = []"
    unfolding host_part_def by (auto split: if_splits)
  from assms have b: "prefix ''www.'' r \<Longrightarrow> takeWhile (\<lambda>c. c \<noteq> CHR ''/'') (drop 4 r) = []"
    unfolding host_part_def by (auto split: if_splits)
  show ?thesis
    by (simp only: ms_Cat_Opt_www ms_Cap_Plus_Nil [OF a] split: if_splits)
       (simp add: ms_Cap_Plus_Nil [OF b] del: ms.simps)
qed

lemma ms_host_hd:
  assumes "host_part r \<noteq> []"
  shows "\<exists>j t rest. ms (Cat (Opt (Str ''www.'')) (Cap (Plus (\<lambda>c. c \<noteq> CHR ''/'')))) (i, r, None) =
           (j, t, Some (host_part r)) # rest"
proof (cases "prefix ''www.'' r \<and> takeWhile (\<lambda>c. c \<noteq> CHR ''/'') (drop 4 r) \<noteq> []")
  case True
  then have hp: "host_part r = takeWhile (\<lambda>c. c \<noteq> CHR ''/'') (drop 4 r)"
    by (simp add: host_part_def)
  from True ms_Cap_Plus_hd [of "\<lambda>c. c \<noteq> CHR ''/''" "drop 4 r" "i + 4" None]
  obtain rest where "ms (Cap (Plus (\<lambda>c. c \<noteq> CHR ''/''))) (i + 4, drop 4 r, None) =
      (i + 4 + length (host_part r), dropWhile (\<lambda>c. c \<noteq> CHR ''/'') (drop 4 r), Some (host_part r)) # rest"
    unfolding hp by blast
  with True show ?thesis
    by (simp only: ms_Cat_Opt_www) simp
next
  case False
  then have hp: "host_part r = takeWhile (\<lambda>c. c \<noteq> CHR ''/'') r"
    unfolding host_part_def by (simp only: if_False)
  from assms ms_Cap_Plus_hd [of "\<lambda>c. c \<noteq> CHR ''/''" r i None]
  obtain rest where c: "ms (Cap (Plus (\<lambda>c. c \<noteq> CHR ''/''))) (i, r, None) =
      (i + length (host_part r), dropWhile (\<lambda>c. c \<noteq> CHR ''/'') r, Some (host_part r)) # rest"
    unfolding hp by blast
  have "prefix ''www.'' r \<Longrightarrow> ms (Cap (Plus (\<lambda>c. c \<noteq> CHR ''/''))) (i + 4, drop 4 r, None) = []"
    using False by (intro ms_Cap_Plus_Nil) simp
  with c show ?thesis
    by (simp only: ms_Cat_Opt_www) simp
qed

text \<open>The scheme: \<^verbatim>\<open>https?://\<close>, at the start of the input.\<close>

lemma ms_scheme:
  "ms (Cat (Str ''http'') (Cat (Opt (Str ''s'')) (Cat (Str ''://'') b))) (0, w, None) =
     (case scheme_rest w of None \<Rightarrow> [] | Some r \<Rightarrow> ms b (length w - length r, r, None))"
proof -
  have l4: "length ''http'' = 4" and l1: "length ''s'' = 1" and l3: "length ''://'' = 3"
    by simp_all
  have q: "prefix ''s://'' (drop 4 w) = (prefix ''s'' (drop 4 w) \<and> prefix ''://'' (drop 5 w))"
    using prefix_append_drop [of "''s''" "''://''" "drop 4 w"] by (simp only: l1 drop_drop) simp
  have p1: "prefix ''https://'' w =
      (prefix ''http'' w \<and> prefix ''s'' (drop 4 w) \<and> prefix ''://'' (drop 5 w))"
    using prefix_append_drop [of "''http''" "''s://''" w] unfolding l4 q by simp
  have p2: "prefix ''http://'' w = (prefix ''http'' w \<and> prefix ''://'' (drop 4 w))"
    using prefix_append_drop [of "''http''" "''://''" w] unfolding l4 by simp
  have excl: "\<not> (prefix ''s'' (drop 4 w) \<and> prefix ''://'' (drop 4 w))"
    by (cases "drop 4 w") auto
  have n8: "prefix ''https://'' w \<Longrightarrow> length w - length (drop 8 w) = 8"
    by (auto simp: prefix_def)
  have n7: "prefix ''http://'' w \<Longrightarrow> length w - length (drop 7 w) = 7"
    by (auto simp: prefix_def)
  have "ms (Cat (Str ''http'') (Cat (Opt (Str ''s'')) (Cat (Str ''://'') b))) (0, w, None) =
     (if prefix ''http'' w
      then (if prefix ''s'' (drop 4 w)
            then (if prefix ''://'' (drop 5 w) then ms b (8, drop 8 w, None) else [])
            else []) @
           (if prefix ''://'' (drop 4 w) then ms b (7, drop 7 w, None) else [])
      else [])"
    by (simp only: ms_Cat_Str ms_Cat_Opt_Str l4 l1 l3 drop_drop) simp
  also have "\<dots> = (if prefix ''https://'' w then ms b (8, drop 8 w, None)
      else if prefix ''http://'' w then ms b (7, drop 7 w, None) else [])"
    unfolding p1 p2 using excl by auto
  also have "\<dots> = (case scheme_rest w of None \<Rightarrow> [] | Some r \<Rightarrow> ms b (length w - length r, r, None))"
    using n8 n7 by (simp add: scheme_rest_def del: ms.simps length_drop)
  finally show ?thesis .
qed

lemma FindStringSubmatch_urlRegexp:
  "case scheme_rest w of
     None \<Rightarrow> FindStringSubmatch urlRegexp w = []
   | Some r \<Rightarrow>
       if host_part r = [] then FindStringSubmatch urlRegexp w = []
       else \<exists>whole. FindStringSubmatch urlRegexp w = [whole, host_part r]"
proof (cases "scheme_rest w")
  case None
  then show ?thesis
    by (simp add: urlRegexp_def FindStringSubmatch_Bol ms_scheme del: ms.simps)
next
  case (Some r)
  show ?thesis
  proof (cases "host_part r = []")
    case True
    with Some ms_host_Nil [OF True, of "length w - length r"] show ?thesis
      by (simp add: urlRegexp_def FindStringSubmatch_Bol ms_scheme del: ms.simps)
  next
    case False
    from ms_host_hd [OF False, of "length w - length r"] obtain j t rest where
      "ms (Cat (Opt (Str ''www.'')) (Cap (Plus (\<lambda>c. c \<noteq> CHR ''/'')))) (length w - length r, r, None)
         = (j, t, Some (host_part r)) # rest" by blast
    with Some False show ?thesis
      by (simp add: urlRegexp_def FindStringSubmatch_Bol ms_scheme del: ms.simps)
  qed
qed

lemma cleanWord_closed:
  "cleanWord w =
     (case scheme_rest w of
        None \<Rightarrow> w
      | Some r \<Rightarrow> if host_part r = [] then w else host_part r)"
  using FindStringSubmatch_urlRegexp [of w]
  by (auto simp: cleanWord_def split: option.splits if_splits)

text \<open>
  C3. URL cleaning returns group 1 of the host-extraction pattern when the pattern matches
  and the token itself when it does not; in closed form the result is the host behind the
  scheme and an optional \<^verbatim>\<open>www.\<close>; a token without a scheme prefix is returned as it is,
  and \<^verbatim>\<open>https://www.example.com/path\<close> becomes \<^verbatim>\<open>example.com\<close>.
\<close>

theorem cleanWord_first_group:
  "(FindStringSubmatch urlRegexp w = [] \<longrightarrow> cleanWord w = w) \<and>
   (FindStringSubmatch urlRegexp w \<noteq> [] \<longrightarrow>
      (\<exists>whole. FindStringSubmatch urlRegexp w = [whole, cleanWord w])) \<and>
   cleanWord w = (case scheme_rest w of
                    None \<Rightarrow> w
                  | Some r \<Rightarrow> if host_part r = [] then w else host_part r) \<and>
   (\<not> prefix ''http://'' w \<and> \<not> prefix ''https://'' w \<longrightarrow> cleanWord w = w) \<and>
   cleanWord ''https://www.example.com/path'' = ''example.com''"
proof -
  have closed: "cleanWord w = (case scheme_rest w of
                    None \<Rightarrow> w
                  | Some r \<Rightarrow> if host_part r = [] then w else host_part r)"
    by (rule cleanWord_closed)
  have none: "FindStringSubmatch urlRegexp w = [] \<longrightarrow> cleanWord w = w"
    by (simp add: cleanWord_def)
  have some: "FindStringSubmatch urlRegexp w \<noteq> [] \<longrightarrow>
      (\<exists>whole. FindStringSubmatch urlRegexp w = [whole, cleanWord w])"
    using FindStringSubmatch_urlRegexp [of w]
    by (auto simp: cleanWord_def split: option.splits if_splits)
  have noscheme: "\<not> prefix ''http://'' w \<and> \<not> prefix ''https://'' w \<longrightarrow> cleanWord w = w"
    by (simp add: closed scheme_rest_def)
  have ex: "cleanWord ''https://www.example.com/path'' = ''example.com''"
    by (simp add: cleanWord_closed scheme_rest_def host_part_def)
  from none some closed noscheme ex show ?thesis by blast
qed

theorem cleanWord_first_group_witness:
  "\<not> prefix ''http://'' ''example.com/path'' \<and> \<not> prefix ''https://'' ''example.com/path'' \<and>
   FindStringSubmatch urlRegexp ''example.com/path'' = [] \<and>
   cleanWord ''example.com/path'' = ''example.com/path'' \<and>
   FindStringSubmatch urlRegexp ''http://www./x'' \<noteq> [] \<and>
   cleanWord ''http://www./x'' = ''www.''"
proof -
  have a: "FindStringSubmatch urlRegexp ''example.com/path'' = []"
    by (simp add: FindStringSubmatch_def urlRegexp_def)
  have b: "FindStringSubmatch urlRegexp ''http://www./x'' = [''http://www.'', ''www.'']"
    by (simp add: FindStringSubmatch_def urlRegexp_def)
  from cleanWord_first_group [of "''example.com/path''"] cleanWord_first_group [of "''http://www./x''"] a b
  show ?thesis by simp
qed

section \<open>Lemmas on whitespace replacement and splitting\<close>

lemma Split_no_sep:
  assumes "sep \<notin> set s"
  shows "Split s sep = [s]"
proof -
  from assms have d: "dropWhile (\<lambda>c. c \<noteq> sep) s = []"
    by (auto simp: dropWhile_eq_Nil_conv)
  show ?thesis by (subst Split.simps) (simp only: d list.case)
qed

lemma Split_at_sep:
  assumes a: "sep \<notin> set a"
  shows "Split (a @ sep # b) sep = a # Split b sep"
proof -
  from a have d: "dropWhile (\<lambda>c. c \<noteq> sep) (a @ sep # b) = sep # b"
    by (induction a) auto
  from a have t: "takeWhile (\<lambda>c. c \<noteq> sep) (a @ sep # b) = a"
    by (induction a) auto
  show ?thesis by (subst Split.simps) (simp only: d t list.case)
qed

lemma ms_Plus_Cons:
  "ms (Plus p) (i, c # cs, g) =
     (if p c then (i + Suc (length (takeWhile p cs)), dropWhile p cs, g) #
                  map (\<lambda>n. (i + n, drop n (c # cs), g)) (rev [1..<Suc (length (takeWhile p cs))])
      else [])"
  by (simp add: dropWhile_eq_drop)

lemma ReplaceAll_at_Plus_Cons:
  "ReplaceAll_at (Plus p) i (c # cs) repl =
     (if p c then repl @ ReplaceAll_at (Plus p) (i + Suc (length (takeWhile p cs))) (dropWhile p cs) repl
      else c # ReplaceAll_at (Plus p) (Suc i) cs repl)"
  using length_dropWhile_le [of p cs]
  by (simp only: ReplaceAll_at.simps ms_Plus_Cons split: if_splits) (simp add: less_Suc_eq_le)

lemma set_ReplaceAll_at_Plus:
  "set (ReplaceAll_at (Plus p) i s repl) \<subseteq> set repl \<union> {c. \<not> p c}"
proof (induction s arbitrary: i rule: length_induct)
  case (1 s)
  show ?case
  proof (cases s)
    case Nil
    then show ?thesis by simp
  next
    case (Cons c cs)
    have len: "length (dropWhile p cs) < length s"
      using length_dropWhile_le [of p cs] Cons by simp
    show ?thesis
    proof (cases "p c")
      case True
      with 1 len Cons show ?thesis
        by (simp only: ReplaceAll_at_Plus_Cons if_True set_append) blast
    next
      case False
      with 1 Cons show ?thesis
        by (simp only: ReplaceAll_at_Plus_Cons if_False) auto
    qed
  qed
qed

lemma ReplaceAll_at_Plus_empty:
  "ReplaceAll_at (Plus p) i s [] = filter (\<lambda>c. \<not> p c) s"
proof (induction s arbitrary: i rule: length_induct)
  case (1 s)
  show ?case
  proof (cases s)
    case Nil
    then show ?thesis by simp
  next
    case (Cons c cs)
    have len: "length (dropWhile p cs) < length s"
      using length_dropWhile_le [of p cs] Cons by simp
    have flt: "filter (\<lambda>c. \<not> p c) (dropWhile p cs) = filter (\<lambda>c. \<not> p c) cs"
      by (induction cs) auto
    show ?thesis
    proof (cases "p c")
      case True
      with 1 len Cons flt show ?thesis
        by (simp only: ReplaceAll_at_Plus_Cons if_True) simp
    next
      case False
      with 1 Cons show ?thesis
        by (simp only: ReplaceAll_at_Plus_Cons if_False) auto
    qed
  qed
qed

lemma newline_not_in_replaced:
  assumes "CHR 0x0A \<notin> set repl"
  shows "CHR 0x0A \<notin> set (ReplaceAllString spaceRegexp word repl)"
proof -
  have "is_space (CHR 0x0A)" by (simp add: is_space_def)
  with assms set_ReplaceAll_at_Plus [of is_space 0 word repl] show ?thesis
    by (auto simp: ReplaceAllString_def spaceRegexp_def)
qed

lemma Split_removeWhitespace:
  "Split (removeWhitespace word) (CHR 0x0A) =
     [ReplaceAllString spaceRegexp word '''', ReplaceAllString spaceRegexp word ''-'']"
proof -
  have a: "CHR 0x0A \<notin> set (ReplaceAllString spaceRegexp word '''')"
    by (rule newline_not_in_replaced) simp
  have b: "CHR 0x0A \<notin> set (ReplaceAllString spaceRegexp word ''-'')"
    by (rule newline_not_in_replaced) simp
  show ?thesis
    unfolding removeWhitespace_def Let_def
    using Split_at_sep [OF a, of "ReplaceAllString spaceRegexp word ''-''"] Split_no_sep [OF b]
    by simp
qed

section \<open>The word set\<close>

lemma set_addWordToMap: "set (addWordToMap words word) = insert word (set words)"
  by (auto simp: addWordToMap_def)

lemma distinct_addWordToMap: "distinct words \<Longrightarrow> distinct (addWordToMap words word)"
  by (simp add: addWordToMap_def)

lemma set_processWord:
  "set (processWord word words cfg) =
     set words \<union>
     (let base = (if cleanFlag cfg then cleanWord word else word)
      in {base, ReplaceAllString spaceRegexp base '''', ReplaceAllString spaceRegexp base ''-''})"
  by (auto simp: processWord_def Let_def Split_removeWhitespace set_addWordToMap)

lemma distinct_processWord: "distinct words \<Longrightarrow> distinct (processWord word words cfg)"
  by (simp add: processWord_def Let_def Split_removeWhitespace distinct_addWordToMap)

lemma set_fold_processWord:
  "set (fold (\<lambda>word words. processWord (f word) words cfg) tokens acc) =
     set acc \<union>
     (\<Union>t \<in> set tokens.
        let base = (if cleanFlag cfg then cleanWord (f t) else f t)
        in {base, ReplaceAllString spaceRegexp base '''', ReplaceAllString spaceRegexp base ''-''})"
proof (induction tokens arbitrary: acc)
  case Nil
  then show ?case by simp
next
  case (Cons t tokens)
  show ?case
    by (simp only: fold.simps o_apply Cons.IH set_processWord list.set UN_insert)
       (simp add: Un_assoc)
qed

lemma distinct_fold_processWord:
  "distinct acc \<Longrightarrow> distinct (fold (\<lambda>word words. processWord (f word) words cfg) tokens acc)"
  by (induction tokens arbitrary: acc) (simp_all add: distinct_processWord)

text \<open>
  C1. Processing a token adds to the word set the (possibly URL-cleaned) token, the token
  with all whitespace removed and the token with each whitespace run replaced by a hyphen,
  and nothing else: at most three new entries. The set that \<^verbatim>\<open>readAndCleanWords\<close>
  returns is the union of these three over all input tokens.
\<close>

theorem processWord_three_variants:
  "let norm = (\<lambda>t. if cleanFlag cfg then cleanWord t else t);
       compact = (\<lambda>b. ReplaceAllString spaceRegexp b '''');
       hyphened = (\<lambda>b. ReplaceAllString spaceRegexp b ''-'');
       tokens = (if args \<noteq> [] then args else map (TrimSpace e) (stdin_lines e))
   in set (processWord word words cfg) =
        set words \<union> {norm word, compact (norm word), hyphened (norm word)} \<and>
      card (set (processWord word words cfg) - set words) \<le> 3 \<and>
      compact (norm word) = filter (\<lambda>c. \<not> is_space c) (norm word) \<and>
      (args \<noteq> [] \<or> stdin_err e = None \<longrightarrow>
         (\<exists>ws w'. readAndCleanWords e cfg args w = Inr (ws, w') \<and> distinct ws \<and>
            set ws = (\<Union>t \<in> set tokens. {norm t, compact (norm t), hyphened (norm t)})))"
proof -
  let ?norm = "\<lambda>t. if cleanFlag cfg then cleanWord t else t"
  let ?compact = "\<lambda>b. ReplaceAllString spaceRegexp b ''''"
  let ?hyphened = "\<lambda>b. ReplaceAllString spaceRegexp b ''-''"
  let ?three = "\<lambda>t. {?norm t, ?compact (?norm t), ?hyphened (?norm t)}"
  have s: "set (processWord word words cfg) = set words \<union> ?three word"
    by (simp add: set_processWord Let_def)
  have "set (processWord word words cfg) - set words \<subseteq> ?three word"
    unfolding s by blast
  then have "card (set (processWord word words cfg) - set words) \<le> card (?three word)"
    by (intro card_mono) simp_all
  also have "\<dots> \<le> 3"
    by (simp add: card_insert_if)
  finally have c: "card (set (processWord word words cfg) - set words) \<le> 3" .
  have f: "?compact (?norm word) = filter (\<lambda>c. \<not> is_space c) (?norm word)"
    by (simp add: ReplaceAllString_def spaceRegexp_def ReplaceAll_at_Plus_empty)
  have r: "args \<noteq> [] \<or> stdin_err e = None \<longrightarrow>
         (\<exists>ws w'. readAndCleanWords e cfg args w = Inr (ws, w') \<and> distinct ws \<and>
            set ws = (\<Union>t \<in> set (if args \<noteq> [] then args else map (TrimSpace e) (stdin_lines e)).
                        ?three t))"
  proof (cases "args = []")
    case True
    show ?thesis
      using True set_fold_processWord [of "TrimSpace e" cfg "stdin_lines e" "[]"]
            distinct_fold_processWord [of "[]" "TrimSpace e" cfg "stdin_lines e"]
      by (auto simp: readAndCleanWords_def checkScannerError_def Let_def)
  next
    case False
    show ?thesis
      using False set_fold_processWord [of "\<lambda>t. t" cfg args "[]"]
            distinct_fold_processWord [of "[]" "\<lambda>t. t" cfg args]
      by (auto simp: readAndCleanWords_def Let_def)
  qed
  from s c f r show ?thesis
    unfolding Let_def by blast
qed

theorem processWord_three_variants_witness:
  "[''hello big  world''] \<noteq> [] \<and>
   set (processWord ''hello big  world'' [''x''] flags_ex) =
     {''x'', ''hello big  world'', ''hellobigworld'', ''hello-big-world''} \<and>
   readAndCleanWords env_ok flags_ex [''hello big  world''] world0 =
      Inr ([''hello big  world'', ''hellobigworld'', ''hello-big-world''], world0)"
proof -
  have a: "ReplaceAllString spaceRegexp ''hello big  world'' '''' = ''hellobigworld''"
    by (simp add: ReplaceAllString_def spaceRegexp_def ReplaceAll_at_Plus_Cons is_space_def
        del: ReplaceAll_at.simps(2))
  have b: "ReplaceAllString spaceRegexp ''hello big  world'' ''-'' = ''hello-big-world''"
    by (simp add: ReplaceAllString_def spaceRegexp_def ReplaceAll_at_Plus_Cons is_space_def
        del: ReplaceAll_at.simps(2))
  have c: "readAndCleanWords env_ok flags_ex [''hello big  world''] world0 =
      Inr ([''hello big  world'', ''hellobigworld'', ''hello-big-world''], world0)"
    by (simp add: readAndCleanWords_def processWord_def flags_ex_def Split_removeWhitespace
        a b addWordToMap_def)
  have d: "cleanFlag flags_ex = False"
    by (simp add: flags_ex_def)
  note inst = processWord_three_variants [of flags_ex "[''hello big  world'']" env_ok
      "''hello big  world''" "[''x'']" world0, unfolded Let_def, THEN conjunct1]
  have "set (processWord ''hello big  world'' [''x''] flags_ex) =
     set [''x''] \<union> {''hello big  world'', ''hellobigworld'', ''hello-big-world''}"
    using inst by (simp only: d a b if_False)
  with c show ?thesis by auto
qed

section \<open>Effects of the basic operations\<close>

lemma calls_of_append: "calls_of (a @ b) = calls_of a @ calls_of b"
  by (induction a rule: calls_of.induct) simp_all

lemma Print_simps:
  "trace (Print s w) = trace w @ [Stdout s]"
  "fs (Print s w) = fs w"
  "github_calls (Print s w) = github_calls w"
  "gitlab_calls (Print s w) = gitlab_calls w"
  by (simp_all add: Print_def github_calls_def gitlab_calls_def calls_of_append)

lemma call_api_simps:
  "trace (call_api c w) = trace w @ [Api c]"
  "fs (call_api c w) = fs w"
  "github_calls (call_api c w) = github_calls w @ (if is_github_call c then [c] else [])"
  "gitlab_calls (call_api c w) = gitlab_calls w @ (if is_github_call c then [] else [c])"
  by (simp_all add: call_api_def github_calls_def gitlab_calls_def calls_of_append)

lemma verbosePrint_simps:
  "fs (verbosePrint flags s w) = fs w"
  "github_calls (verbosePrint flags s w) = github_calls w"
  "gitlab_calls (verbosePrint flags s w) = gitlab_calls w"
  by (simp_all add: verbosePrint_def Print_simps)

lemma fold_Print:
  "trace (fold (\<lambda>r. Print (f r)) rs w) = trace w @ map (\<lambda>r. Stdout (f r)) rs"
  "fs (fold (\<lambda>r. Print (f r)) rs w) = fs w"
  "github_calls (fold (\<lambda>r. Print (f r)) rs w) = github_calls w"
  "gitlab_calls (fold (\<lambda>r. Print (f r)) rs w) = gitlab_calls w"
  by (induction rs arbitrary: w) (simp_all add: Print_simps)

lemma printResults_simps:
  "fs (printResults flags header results w) = fs w"
  "github_calls (printResults flags header results w) = github_calls w"
  "gitlab_calls (printResults flags header results w) = gitlab_calls w"
  by (simp_all add: printResults_def fold_Print Print_simps)

lemma trace_printResults:
  "trace (printResults flags header results w) =
     trace w @
     (if simpleFlag flags then map (\<lambda>r. Stdout (r @ ''\<newline>'')) results
      else Stdout (''\<newline>'' @ header @ '':\<newline>'') #
           map (\<lambda>r. Stdout (''- '' @ r @ ''\<newline>'')) results)"
  by (simp add: printResults_def fold_Print Print_simps)

lemma trace_fold_WriteString:
  "trace (fold (\<lambda>n. WriteString name (n @ ''\<newline>'')) names w) = trace w"
  by (induction names arbitrary: w) (simp_all add: WriteString_def)

lemma fs_fold_WriteString:
  "fs w name = Some old \<Longrightarrow>
   fs (fold (\<lambda>n. WriteString name (n @ ''\<newline>'')) names w) =
     (fs w)(name \<mapsto> old @ file_lines names)"
proof (induction names arbitrary: w old)
  case Nil
  then show ?case by (auto simp: file_lines_def)
next
  case (Cons n names)
  have upd: "fs (WriteString name (n @ ''\<newline>'') w) = (fs w)(name \<mapsto> old @ n @ ''\<newline>'')"
    using Cons.prems by (simp add: WriteString_def)
  then have at: "fs (WriteString name (n @ ''\<newline>'') w) name = Some (old @ n @ ''\<newline>'')"
    by simp
  have "fs (fold (\<lambda>n. WriteString name (n @ ''\<newline>'')) (n # names) w) =
      (fs (WriteString name (n @ ''\<newline>'') w))(name \<mapsto> (old @ n @ ''\<newline>'') @ file_lines names)"
    unfolding fold_simps(2) by (rule Cons.IH [OF at])
  also have "\<dots> = (fs w)(name \<mapsto> old @ file_lines (n # names))"
    unfolding upd by (simp add: file_lines_def)
  finally show ?case .
qed

lemma save_names_ok:
  assumes "os_Create_err e (length (trace w)) name = None"
  shows "fst (save_names e name names w)"
    and "trace (snd (save_names e name names w)) = trace w"
    and "fs (snd (save_names e name names w)) = (fs w)(name \<mapsto> file_lines names)"
  using assms
  by (simp_all add: save_names_def trace_fold_WriteString
      fs_fold_WriteString [of _ _ "[]"] os_Create_def)

lemma save_names_err:
  assumes "os_Create_err e (length (trace w)) name = Some err"
  shows "save_names e name names w = (False, Print (err @ ''\<newline>'') w)"
  using assms by (simp add: save_names_def)

lemma save_names_calls:
  "github_calls (snd (save_names e name names w)) = github_calls w"
  "gitlab_calls (snd (save_names e name names w)) = gitlab_calls w"
  by (simp_all add: save_names_def github_calls_def gitlab_calls_def trace_fold_WriteString
      os_Create_def Print_def calls_of_append split: option.splits)

lemma save_names_other_file:
  "name' \<noteq> name \<Longrightarrow> fs (snd (save_names e name names w)) name' = fs w name'"
  by (simp add: save_names_def fs_fold_WriteString [of _ _ "[]"] os_Create_def Print_simps
      split: option.splits)

section \<open>The rate-limited transport\<close>

text \<open>
  C9. \<^verbatim>\<open>RoundTrip\<close> consults the limiter first, for every request. When the wait returns
  an error the request is not handed to the wrapped transport and the result is a nil
  response with exactly that error; otherwise the result is what the wrapped transport
  returns for the same request.
\<close>

theorem RoundTrip_waits_first:
  "waits (snd (RoundTrip t req s)) = Suc (waits s) \<and>
   (\<forall>err. limiter t (waits s) = Some err \<longrightarrow>
      fst (RoundTrip t req s) = (None, Some err) \<and>
      forwarded (snd (RoundTrip t req s)) = forwarded s) \<and>
   (limiter t (waits s) = None \<longrightarrow>
      fst (RoundTrip t req s) = transport t req (length (forwarded s)) \<and>
      forwarded (snd (RoundTrip t req s)) = forwarded s @ [req])"
  by (simp add: RoundTrip_def split: option.splits)

theorem RoundTrip_waits_first_witness:
  "limiter transport_ex (waits \<lparr>waits = 0, forwarded = []\<rparr>) = None \<and>
   fst (RoundTrip transport_ex ''GET /search/users'' \<lparr>waits = 0, forwarded = []\<rparr>) =
     (Some ''200 OK'', None) \<and>
   forwarded (snd (RoundTrip transport_ex ''GET /search/users'' \<lparr>waits = 0, forwarded = []\<rparr>)) =
     [''GET /search/users''] \<and>
   limiter transport_ex (waits \<lparr>waits = 1, forwarded = [''GET /search/users'']\<rparr>) =
     Some ''rate: Wait(n=1) would exceed context deadline'' \<and>
   fst (RoundTrip transport_ex ''GET /search/repositories''
          \<lparr>waits = 1, forwarded = [''GET /search/users'']\<rparr>) =
     (None, Some ''rate: Wait(n=1) would exceed context deadline'') \<and>
   forwarded (snd (RoundTrip transport_ex ''GET /search/repositories''
                     \<lparr>waits = 1, forwarded = [''GET /search/users'']\<rparr>)) =
     [''GET /search/users'']"
  using RoundTrip_waits_first [of transport_ex "''GET /search/users''" "\<lparr>waits = 0, forwarded = []\<rparr>"]
        RoundTrip_waits_first [of transport_ex "''GET /search/repositories''"
          "\<lparr>waits = 1, forwarded = [''GET /search/users'']\<rparr>"]
  by (simp add: transport_ex_def)

section \<open>Result files and the most recent successful call\<close>

lemma last_ok_from_append:
  "last_ok_from e flags F k (a @ b) acc =
     last_ok_from e flags F (k + length a) b (last_ok_from e flags F k a acc)"
  by (induction e flags F k a acc rule: last_ok_from.induct) simp_all

lemma last_ok_from_quiet:
  "calls_of evs = [] \<Longrightarrow> last_ok_from e flags F k evs acc = acc"
  by (induction e flags F k evs acc rule: last_ok_from.induct) simp_all

lemma most_recent_ok_quiet:
  "calls_of evs = [] \<Longrightarrow> most_recent_ok e flags F (tr @ evs) = most_recent_ok e flags F tr"
  by (simp add: most_recent_ok_def last_ok_from_append last_ok_from_quiet)

lemma most_recent_ok_call:
  "calls_of evs = [] \<Longrightarrow>
   most_recent_ok e flags F (tr @ Api c # evs) =
     (if file_of_call flags c = Some F
      then (case answer e (length tr) c of
              Some names \<Rightarrow> Some names
            | None \<Rightarrow> most_recent_ok e flags F tr)
      else most_recent_ok e flags F tr)"
  by (simp add: most_recent_ok_def last_ok_from_append last_ok_from_quiet split: option.splits)

lemma files_reflect_quiet:
  assumes "files_reflect e flags fs0 w" and "fs w' = fs w"
    and "trace w' = trace w @ evs" and "calls_of evs = []"
  shows "files_reflect e flags fs0 w'"
  using assms by (simp add: files_reflect_def most_recent_ok_quiet)

lemma files_reflect_failed:
  assumes "files_reflect e flags fs0 w" and "fs w' = fs w"
    and "trace w' = trace w @ Api c # evs" and "calls_of evs = []"
    and "file_of_call flags c = None \<or> answer e (length (trace w)) c = None"
  shows "files_reflect e flags fs0 w'"
  using assms by (auto simp: files_reflect_def most_recent_ok_call)

lemma files_reflect_saved:
  assumes "files_reflect e flags fs0 w"
    and "trace w' = trace w @ Api c # evs" and "calls_of evs = []"
    and "file_of_call flags c = Some F" and "answer e (length (trace w)) c = Some names"
    and "fs w' = (fs w)(F \<mapsto> file_lines names)"
  shows "files_reflect e flags fs0 w'"
  using assms by (auto simp: files_reflect_def most_recent_ok_call)

lemma calls_of_Stdout: "calls_of (map (\<lambda>r. Stdout (f r)) rs) = []"
  by (induction rs) simp_all

lemma printResults_quiet:
  "\<exists>evs. trace (printResults flags header results w) = trace w @ evs \<and> calls_of evs = []"
  by (simp add: trace_printResults calls_of_Stdout)

text \<open>
  The common tail of the search functions: print the names, then save them. When the file
  can be created, the trace gains only output and the file holds exactly the names.
\<close>

lemma print_and_save:
  assumes "\<forall>n. os_Create_err e n name = None"
  shows "\<exists>evs. trace (snd (save_names e name names (printResults flags header names w))) =
                 trace w @ evs \<and> calls_of evs = []"
    and "fs (snd (save_names e name names (printResults flags header names w))) =
           (fs w)(name \<mapsto> file_lines names)"
    and "fst (save_names e name names (printResults flags header names w))"
  using assms printResults_quiet [of flags header names w]
  by (simp_all add: save_names_ok printResults_simps)

lemma file_of_call_org [simp]:
  "file_of_call flags (Search_Users (''type:org '' @ q) m) = Some ''github_organizations.txt''"
  by simp

lemma file_of_call_user [simp]:
  "file_of_call flags (Search_Users (''type:user '' @ q) m) = Some ''github_users.txt''"
  by simp

lemma files_reflect_github:
  assumes inv: "files_reflect e flags fs0 w"
    and cr: "\<forall>n. os_Create_err e n name = None"
    and gh: "is_github_call c" and f: "file_of_call flags c = Some name"
  shows "files_reflect e flags fs0
           (world_of (case github_api e (length (trace w)) c of
                        Inl err \<Rightarrow> Inr (Print (msg err) (call_api c w))
                      | Inr items \<Rightarrow>
                          (case those items of
                             None \<Rightarrow> Inl (NilPointer, call_api c w)
                           | Some names \<Rightarrow>
                               Inr (snd (save_names e name names
                                      (printResults flags header names (call_api c w)))))))"
proof (cases "github_api e (length (trace w)) c")
  case (Inl err)
  then have "answer e (length (trace w)) c = None"
    using gh by (simp add: answer_def)
  with inv Inl show ?thesis
    by (auto simp: world_of_def Print_simps call_api_simps
        intro!: files_reflect_failed [where w = w and evs = "[Stdout (msg err)]" and c = c])
next
  case (Inr items)
  show ?thesis
  proof (cases "those items")
    case None
    then have "answer e (length (trace w)) c = None"
      using gh Inr by (simp add: answer_def)
    with inv Inr None show ?thesis
      by (auto simp: world_of_def call_api_simps
          intro!: files_reflect_failed [where w = w and evs = "[]" and c = c])
  next
    case (Some names)
    then have a: "answer e (length (trace w)) c = Some names"
      using gh Inr by (simp add: answer_def)
    from print_and_save(1) [OF cr, of names flags header "call_api c w"]
    obtain evs where evs: "trace (snd (save_names e name names
        (printResults flags header names (call_api c w)))) = trace (call_api c w) @ evs"
        "calls_of evs = []" by blast
    show ?thesis
      using inv Inr Some a f evs print_and_save(2) [OF cr, of names flags header "call_api c w"]
      by (auto simp: world_of_def call_api_simps
          intro!: files_reflect_saved [where w = w and evs = evs and c = c and names = names and F = name])
  qed
qed

lemma files_reflect_searchGitHubOrganizations:
  assumes "files_reflect e flags fs0 w" and "\<forall>n f. os_Create_err e n f = None"
  shows "files_reflect e flags fs0 (world_of (searchGitHubOrganizations flags e q m w))"
  unfolding searchGitHubOrganizations_def Let_def
  using assms by (intro files_reflect_github) simp_all

lemma files_reflect_searchGitHubRepositories:
  assumes "files_reflect e flags fs0 w" and "\<forall>n f. os_Create_err e n f = None"
  shows "files_reflect e flags fs0 (world_of (searchGitHubRepositories flags e q m w))"
  unfolding searchGitHubRepositories_def Let_def
  using assms by (intro files_reflect_github) simp_all

lemma files_reflect_searchGitHubUsers:
  assumes "files_reflect e flags fs0 w" and "\<forall>n f. os_Create_err e n f = None"
  shows "files_reflect e flags fs0 (world_of (searchGitHubUsers flags e q m w))"
  unfolding searchGitHubUsers_def Let_def
  using assms by (intro files_reflect_github) simp_all

lemma searchGitLabGroupsAndUsers_halves:
  "searchGitLabGroupsAndUsers flags e q m w =
     (case gitlab_api e (length (trace w)) (ListGroups q m) of
        Inl err \<Rightarrow>
          Print (''Error searching GitLab groups: '' @ err @ ''\<newline>'') (call_api (ListGroups q m) w)
      | Inr groups \<Rightarrow>
          if orgFlag flags
          then (let saved = save_names e ''gitlab_groups.txt'' groups
                              (printResults flags
                                 (''GitLab groups matching '' @ [CHR 0x27] @ q @ [CHR 0x27])
                                 groups (call_api (ListGroups q m) w))
                in if fst saved then gitlab_users_half flags e q m (snd saved) else snd saved)
          else gitlab_users_half flags e q m (call_api (ListGroups q m) w))"
  by (simp add: searchGitLabGroupsAndUsers_def gitlab_users_half_def Let_def
      split: sum.splits prod.splits)

lemma files_reflect_gitlab_err:
  assumes "files_reflect e flags fs0 w" and "\<not> is_github_call c"
    and "gitlab_api e (length (trace w)) c = Inl err"
  shows "files_reflect e flags fs0 (Print msg (call_api c w))"
proof -
  from assms have "answer e (length (trace w)) c = None"
    by (simp add: answer_def)
  with assms(1) show ?thesis
    by (auto simp: Print_simps call_api_simps
        intro!: files_reflect_failed [where w = w and evs = "[Stdout msg]" and c = c])
qed

lemma files_reflect_discard:
  assumes "files_reflect e flags fs0 w" and "file_of_call flags c = None"
  shows "files_reflect e flags fs0 (call_api c w)"
  using assms
  by (auto simp: call_api_simps intro!: files_reflect_failed [where w = w and evs = "[]" and c = c])

lemma files_reflect_gitlab_save:
  assumes inv: "files_reflect e flags fs0 w"
    and cr: "\<forall>n. os_Create_err e n name = None"
    and gl: "\<not> is_github_call c" and f: "file_of_call flags c = Some name"
    and ok: "gitlab_api e (length (trace w)) c = Inr names"
  shows "files_reflect e flags fs0
           (snd (save_names e name names (printResults flags header names (call_api c w))))"
proof -
  from gl ok have a: "answer e (length (trace w)) c = Some names"
    by (simp add: answer_def)
  from print_and_save(1) [OF cr, of names flags header "call_api c w"]
  obtain evs where evs: "trace (snd (save_names e name names
      (printResults flags header names (call_api c w)))) = trace (call_api c w) @ evs"
      "calls_of evs = []" by blast
  show ?thesis
    using inv a f evs print_and_save(2) [OF cr, of names flags header "call_api c w"]
    by (auto simp: call_api_simps
        intro!: files_reflect_saved [where w = w and evs = evs and c = c and names = names and F = name])
qed

lemma files_reflect_gitlab_users_half:
  assumes inv: "files_reflect e flags fs0 w" and cr: "\<forall>n f. os_Create_err e n f = None"
  shows "files_reflect e flags fs0 (gitlab_users_half flags e q m w)"
proof (cases "gitlab_api e (length (trace w)) (ListUsers q m)")
  case (Inl err)
  with inv show ?thesis
    by (simp add: gitlab_users_half_def Let_def files_reflect_gitlab_err)
next
  case (Inr users)
  show ?thesis
  proof (cases "userFlag flags")
    case True
    with inv cr Inr show ?thesis
      by (simp add: gitlab_users_half_def Let_def files_reflect_gitlab_save)
  next
    case False
    with inv Inr show ?thesis
      by (simp add: gitlab_users_half_def Let_def files_reflect_discard)
  qed
qed

lemma files_reflect_searchGitLabGroupsAndUsers:
  assumes inv: "files_reflect e flags fs0 w" and cr: "\<forall>n f. os_Create_err e n f = None"
  shows "files_reflect e flags fs0 (searchGitLabGroupsAndUsers flags e q m w)"
proof (cases "gitlab_api e (length (trace w)) (ListGroups q m)")
  case (Inl err)
  with inv show ?thesis
    by (simp add: searchGitLabGroupsAndUsers_halves files_reflect_gitlab_err)
next
  case (Inr groups)
  show ?thesis
  proof (cases "orgFlag flags")
    case True
    let ?hdr = "''GitLab groups matching '' @ [CHR 0x27] @ q @ [CHR 0x27]"
    let ?w2 = "snd (save_names e ''gitlab_groups.txt'' groups
                 (printResults flags ?hdr groups (call_api (ListGroups q m) w)))"
    from cr have cr1: "\<forall>n. os_Create_err e n ''gitlab_groups.txt'' = None" by simp
    have "files_reflect e flags fs0 ?w2"
      using inv cr1 _ _ Inr by (rule files_reflect_gitlab_save) (simp_all add: True)
    then have "files_reflect e flags fs0 (gitlab_users_half flags e q m ?w2)"
      using cr by (rule files_reflect_gitlab_users_half)
    with True Inr print_and_save(3) [OF cr1, of groups flags ?hdr "call_api (ListGroups q m) w"]
    show ?thesis
      by (simp add: searchGitLabGroupsAndUsers_halves Let_def)
  next
    case False
    with inv have "files_reflect e flags fs0 (call_api (ListGroups q m) w)"
      by (simp add: files_reflect_discard)
    then have "files_reflect e flags fs0
        (gitlab_users_half flags e q m (call_api (ListGroups q m) w))"
      using cr by (rule files_reflect_gitlab_users_half)
    with False Inr show ?thesis
      by (simp add: searchGitLabGroupsAndUsers_halves)
  qed
qed

lemma files_reflect_searchGitLabProjects:
  assumes inv: "files_reflect e flags fs0 w" and cr: "\<forall>n f. os_Create_err e n f = None"
  shows "files_reflect e flags fs0 (searchGitLabProjects flags e q m w)"
proof (cases "gitlab_api e (length (trace w)) (ListProjects q m)")
  case (Inl err)
  with inv show ?thesis
    by (simp add: searchGitLabProjects_def Let_def files_reflect_gitlab_err)
next
  case (Inr projects)
  with inv cr show ?thesis
    by (simp add: searchGitLabProjects_def Let_def files_reflect_gitlab_save)
qed

section \<open>The dispatchers preserve what the search functions preserve\<close>

lemma world_of_simps [simp]:
  "world_of (Inr w) = w"
  "world_of (Inl (h, w)) = w"
  by (simp_all add: world_of_def)

lemma snd_exit_status: "snd (exit_status r) = world_of r"
  by (auto simp: exit_status_def world_of_def split: sum.splits halt.splits)

lemma andThen_simps [simp]:
  "andThen (Inr w) f = f w"
  "andThen (Inl h) f = Inl h"
  by (simp_all add: andThen_def)

lemma files_reflect_andThen:
  assumes "files_reflect e flags fs0 (world_of r)"
    and "\<And>w. files_reflect e flags fs0 w \<Longrightarrow> files_reflect e flags fs0 (world_of (f w))"
  shows "files_reflect e flags fs0 (world_of (andThen r f))"
  using assms by (cases r) auto

lemma files_reflect_verbosePrint:
  "files_reflect e flags fs0 w \<Longrightarrow> files_reflect e flags fs0 (verbosePrint g s w)"
  by (auto simp: verbosePrint_def Print_simps
      intro: files_reflect_quiet [where w = w and evs = "[Stdout s]"])

lemma files_reflect_Print:
  "files_reflect e flags fs0 w \<Longrightarrow> files_reflect e flags fs0 (Print s w)"
  by (auto simp: Print_simps intro: files_reflect_quiet [where w = w and evs = "[Stdout s]"])

lemma files_reflect_searchGitHub:
  assumes inv: "files_reflect e flags fs0 w" and cr: "\<forall>n f. os_Create_err e n f = None"
  shows "files_reflect e flags fs0 (world_of (searchGitHub flags e client q cfg w))"
proof (cases client)
  case None
  with inv show ?thesis by (simp add: searchGitHub_def)
next
  case (Some cl)
  have 1: "files_reflect e flags fs0
      (world_of (if orgFlag cfg then searchGitHubOrganizations flags e q (maxFlag cfg) w else Inr w))"
    using inv cr by (simp add: files_reflect_searchGitHubOrganizations)
  have 2: "\<And>w. files_reflect e flags fs0 w \<Longrightarrow> files_reflect e flags fs0
      (world_of (if repoFlag cfg then searchGitHubRepositories flags e q (maxFlag cfg) w else Inr w))"
    using cr by (simp add: files_reflect_searchGitHubRepositories)
  have 3: "\<And>w. files_reflect e flags fs0 w \<Longrightarrow> files_reflect e flags fs0
      (world_of (if userFlag cfg then searchGitHubUsers flags e q (maxFlag cfg) w else Inr w))"
    using cr by (simp add: files_reflect_searchGitHubUsers)
  have unf: "searchGitHub flags e client q cfg w =
      andThen (if orgFlag cfg then searchGitHubOrganizations flags e q (maxFlag cfg) w
               else Inr w)
        (\<lambda>w. andThen (if repoFlag cfg then searchGitHubRepositories flags e q (maxFlag cfg) w
                       else Inr w)
                (\<lambda>w. if userFlag cfg then searchGitHubUsers flags e q (maxFlag cfg) w
                      else Inr w))"
    unfolding searchGitHub_def Some by simp
  show ?thesis
    unfolding unf
  proof (rule files_reflect_andThen [OF 1])
    fix w1
    assume "files_reflect e flags fs0 w1"
    from 2 [OF this] show "files_reflect e flags fs0
        (world_of (andThen (if repoFlag cfg then searchGitHubRepositories flags e q (maxFlag cfg) w1
                            else Inr w1)
                     (\<lambda>w. if userFlag cfg then searchGitHubUsers flags e q (maxFlag cfg) w
                          else Inr w)))"
      by (rule files_reflect_andThen) (rule 3)
  qed
qed

lemma files_reflect_searchGitLab:
  assumes inv: "files_reflect e flags fs0 w" and cr: "\<forall>n f. os_Create_err e n f = None"
  shows "files_reflect e flags fs0 (searchGitLab flags e client q cfg w)"
  using inv cr
  by (simp add: searchGitLab_def Let_def files_reflect_searchGitLabGroupsAndUsers
      files_reflect_searchGitLabProjects)

lemma files_reflect_search_words:
  assumes cr: "\<forall>n f. os_Create_err e n f = None"
  shows "files_reflect e flags fs0 w \<Longrightarrow>
         files_reflect e flags fs0 (world_of (search_words flags e gh gl cfg ws w))"
proof (induction ws arbitrary: w)
  case Nil
  then show ?case by simp
next
  case (Cons word rest)
  have gh_part: "files_reflect e flags fs0
      (world_of (if \<not> glOnlyFlag cfg \<and> snd gh = None
                 then searchGitHub flags e (fst gh) word cfg
                        (verbosePrint flags (''Searching GitHub for word: '' @ word @ ''\<newline>'') w)
                 else Inr w))"
    using Cons.prems cr by (simp add: files_reflect_searchGitHub files_reflect_verbosePrint)
  have rest_part: "\<And>w. files_reflect e flags fs0 w \<Longrightarrow> files_reflect e flags fs0
      (world_of (search_words flags e gh gl cfg rest
          (if \<not> ghOnlyFlag cfg \<and> snd gl = None
           then searchGitLab flags e (fst gl) word cfg
                  (verbosePrint flags (''Searching GitLab for word: '' @ word @ ''\<newline>'') w)
           else w)))"
    using cr by (intro Cons.IH) (simp add: files_reflect_searchGitLab files_reflect_verbosePrint)
  show ?case
    unfolding search_words.simps by (rule files_reflect_andThen [OF gh_part]) (rule rest_part)
qed

lemma files_reflect_searchPlatforms:
  assumes inv: "files_reflect e flags fs0 w" and cr: "\<forall>n f. os_Create_err e n f = None"
  shows "files_reflect e flags fs0 (world_of (searchPlatforms flags e words cfg w))"
  unfolding searchPlatforms_def Let_def
  using inv cr
  by (intro files_reflect_search_words) (auto simp: files_reflect_Print split: option.splits)

lemma files_reflect_readAndCleanWords:
  assumes inv: "files_reflect e flags fs0 w"
  shows "case readAndCleanWords e cfg args w of
           Inl (h, w') \<Rightarrow> files_reflect e flags fs0 w'
         | Inr (words, w') \<Rightarrow> files_reflect e flags fs0 w'"
proof -
  have scan: "files_reflect e flags fs0 (w\<lparr>trace := trace w @ [Stdin_scan]\<rparr>)"
    using inv by (rule files_reflect_quiet [where evs = "[Stdin_scan]"]) simp_all
  then show ?thesis
    using inv
    by (auto simp: readAndCleanWords_def checkScannerError_def Let_def files_reflect_Print
        split: option.splits)
qed

lemma files_reflect_main:
  assumes inv: "files_reflect e flags fs0 w" and cr: "\<forall>n f. os_Create_err e n f = None"
  shows "files_reflect e flags fs0 (snd (main flags e args w))"
proof -
  have v: "files_reflect e flags fs0 (world_of (validateFlags flags flags w))"
    using inv by (simp add: validateFlags_def files_reflect_Print files_reflect_verbosePrint)
  have rest: "\<And>w. files_reflect e flags fs0 w \<Longrightarrow> files_reflect e flags fs0
      (world_of (case readAndCleanWords e flags args
                        (verbosePrint flags ''Reading and cleaning words...\<newline>'' w) of
                  Inl h \<Rightarrow> Inl h
                | Inr (words, w) \<Rightarrow>
                    andThen
                      (searchPlatforms flags e words flags
                         (verbosePrint flags ''Searching platforms...\<newline>''
                            (verbosePrint flags ''Words cleaned.\<newline>'' w)))
                      (\<lambda>w. Inr (verbosePrint flags ''Platform search completed.\<newline>'' w))))"
  proof -
    fix w
    assume a: "files_reflect e flags fs0 w"
    let ?r = "readAndCleanWords e flags args
                (verbosePrint flags ''Reading and cleaning words...\<newline>'' w)"
    have r: "case ?r of Inl (h, w') \<Rightarrow> files_reflect e flags fs0 w'
             | Inr (words, w') \<Rightarrow> files_reflect e flags fs0 w'"
      by (rule files_reflect_readAndCleanWords [OF files_reflect_verbosePrint [OF a]])
    show "files_reflect e flags fs0
      (world_of (case ?r of
                  Inl h \<Rightarrow> Inl h
                | Inr (words, w) \<Rightarrow>
                    andThen
                      (searchPlatforms flags e words flags
                         (verbosePrint flags ''Searching platforms...\<newline>''
                            (verbosePrint flags ''Words cleaned.\<newline>'' w)))
                      (\<lambda>w. Inr (verbosePrint flags ''Platform search completed.\<newline>'' w))))"
    proof (cases ?r)
      case (Inl h)
      with r show ?thesis by (cases h) simp
    next
      case (Inr p)
      obtain words w' where p: "p = (words, w')" by (cases p)
      from r Inr p have w': "files_reflect e flags fs0 w'" by simp
      have "files_reflect e flags fs0
          (world_of (andThen
                      (searchPlatforms flags e words flags
                         (verbosePrint flags ''Searching platforms...\<newline>''
                            (verbosePrint flags ''Words cleaned.\<newline>'' w')))
                      (\<lambda>w. Inr (verbosePrint flags ''Platform search completed.\<newline>'' w))))"
      proof (rule files_reflect_andThen)
        show "files_reflect e flags fs0
            (world_of (searchPlatforms flags e words flags
                         (verbosePrint flags ''Searching platforms...\<newline>''
                            (verbosePrint flags ''Words cleaned.\<newline>'' w'))))"
          using w' cr by (intro files_reflect_searchPlatforms files_reflect_verbosePrint)
      qed (simp add: files_reflect_verbosePrint)
      with Inr p show ?thesis by simp
    qed
  qed
  show ?thesis
    unfolding main_def snd_exit_status by (rule files_reflect_andThen [OF v]) (rule rest)
qed

text \<open>
  C4. Provided the result files can be created, at the end of a run started with an empty
  trace every file holds exactly the names of the most recent successful call for its
  (platform, category) pair, one per line, whatever it held before and whatever earlier
  calls had found; a file for which no call succeeded is as it was at the start.
\<close>

theorem result_files_most_recent:
  assumes "\<forall>n f. os_Create_err e n f = None" and "trace w = []"
  shows "fs (snd (main flags e args w)) F =
           (case most_recent_ok e flags F (trace (snd (main flags e args w))) of
              None \<Rightarrow> fs w F
            | Some names \<Rightarrow> Some (file_lines names))"
proof -
  from assms(2) have "files_reflect e flags (fs w) w"
    by (simp add: files_reflect_def most_recent_ok_def)
  then have "files_reflect e flags (fs w) (snd (main flags e args w))"
    using assms(1) by (rule files_reflect_main)
  then show ?thesis
    by (simp add: files_reflect_def)
qed

lemma flags_repo_sel:
  "orgFlag flags_repo = False" "repoFlag flags_repo = True" "userFlag flags_repo = False"
  "maxFlag flags_repo = 10" "cleanFlag flags_repo = False" "ghOnlyFlag flags_repo = False"
  "glOnlyFlag flags_repo = False" "simpleFlag flags_repo = True" "verboseFlag flags_repo = False"
  by (simp_all add: flags_repo_def)

lemma env_ok_sel:
  "getenv env_ok ''GITHUB_ACCESS_TOKEN'' = ''gh-token''"
  "getenv env_ok ''GITLAB_ACCESS_TOKEN'' = ''gl-token''"
  "stdin_lines env_ok = []" "stdin_err env_ok = None"
  "range_order env_ok ws = ws"
  "github_api env_ok n (Search_Repositories q m) = Inr [Some (''acme/'' @ q)]"
  "github_api env_ok n (Search_Users q m) = Inr [Some ''acme'', Some ''acme-labs'']"
  "gitlab_api env_ok n (ListGroups q m) = Inr [q]"
  "gitlab_api env_ok n (ListUsers q m) = Inr [q]"
  "gitlab_api env_ok n (ListProjects q m) = Inr [q]"
  "gitlab_NewClient_err env_ok t = None"
  "os_Create_err env_ok n f = None"
  by (simp_all add: env_ok_def)

lemma words_a_b:
  "cleanFlag cfg = False \<Longrightarrow> readAndCleanWords e cfg [''a'', ''b''] w = Inr ([''a'', ''b''], w)"
  by (simp add: readAndCleanWords_def processWord_def Split_removeWhitespace
      addWordToMap_def ReplaceAllString_def spaceRegexp_def ReplaceAll_at_Plus_Cons is_space_def
      del: ReplaceAll_at.simps(2))

lemma run_repo_a_b:
  "fst (main flags_repo env_ok [''a'', ''b''] world0) = 0"
  "trace (snd (main flags_repo env_ok [''a'', ''b''] world0)) =
     [Api (Search_Repositories ''a'' 10), Stdout ''acme/a\<newline>'',
      Api (ListProjects ''a'' 10), Stdout ''a\<newline>'',
      Api (Search_Repositories ''b'' 10), Stdout ''acme/b\<newline>'',
      Api (ListProjects ''b'' 10), Stdout ''b\<newline>'']"
  by (simp_all add: main_def words_a_b validateFlags_def verbosePrint_def searchPlatforms_def
      createGitHubClient_def createGitLabClient_def searchGitHub_def searchGitLab_def
      searchGitHubRepositories_def searchGitLabProjects_def save_names_def printResults_def
      call_api_def Print_def exit_status_def os_Create_def WriteString_def
      flags_repo_sel env_ok_sel world0_def Let_def)

theorem result_files_most_recent_witness:
  "(\<forall>n f. os_Create_err env_ok n f = None) \<and> trace world0 = [] \<and>
   fs (snd (main flags_repo env_ok [''a'', ''b''] world0)) ''gitlab_projects.txt'' =
     Some ''b\<newline>'' \<and>
   fs (snd (main flags_repo env_ok [''a'', ''b''] world0)) ''github_repositories.txt'' =
     Some ''acme/b\<newline>'' \<and>
   fs (snd (main flags_repo env_ok [''a'', ''b''] world0)) ''gitlab_groups.txt'' = None"
proof -
  have cr: "\<forall>n f. os_Create_err env_ok n f = None"
    by (simp add: env_ok_sel)
  have t0: "trace world0 = []" and f0: "fs world0 = Map.empty"
    by (simp_all add: world0_def)
  have p: "most_recent_ok env_ok flags_repo ''gitlab_projects.txt''
      (trace (snd (main flags_repo env_ok [''a'', ''b''] world0))) = Some [''b'']"
    by (simp add: run_repo_a_b most_recent_ok_def answer_def env_ok_sel flags_repo_sel)
  have r: "most_recent_ok env_ok flags_repo ''github_repositories.txt''
      (trace (snd (main flags_repo env_ok [''a'', ''b''] world0))) = Some [''acme/b'']"
    by (simp add: run_repo_a_b most_recent_ok_def answer_def env_ok_sel flags_repo_sel)
  have g: "most_recent_ok env_ok flags_repo ''gitlab_groups.txt''
      (trace (snd (main flags_repo env_ok [''a'', ''b''] world0))) = None"
    by (simp add: run_repo_a_b most_recent_ok_def answer_def env_ok_sel flags_repo_sel)
  from result_files_most_recent [OF cr t0, of flags_repo "[''a'', ''b'']" "''gitlab_projects.txt''"]
       result_files_most_recent [OF cr t0, of flags_repo "[''a'', ''b'']" "''github_repositories.txt''"]
       result_files_most_recent [OF cr t0, of flags_repo "[''a'', ''b'']" "''gitlab_groups.txt''"]
  show ?thesis
    unfolding p r g by (simp add: cr t0 f0 file_lines_def)
qed

section \<open>Which remote calls a search issues\<close>

lemma those_None_iff: "those xs = None \<longleftrightarrow> None \<in> set xs"
  by (induction xs) (auto split: option.splits)

lemma github_search_total:
  assumes "names_present e"
  shows "\<exists>w'. (case github_api e k c of
                 Inl err \<Rightarrow> Inr (f err)
               | Inr items \<Rightarrow> (case those items of None \<Rightarrow> Inl (NilPointer, w1)
                               | Some names \<Rightarrow> Inr (g names))) = Inr w'"
proof (cases "github_api e k c")
  case (Inl err)
  then show ?thesis by simp
next
  case (Inr items)
  with assms have "None \<notin> set items"
    unfolding names_present_def by (metis (mono_tags, lifting) sum.case(2))
  then obtain names where "those items = Some names"
    using those_None_iff [of items] by (cases "those items") auto
  with Inr show ?thesis by simp
qed

lemma searchGitHub_functions_total:
  assumes "names_present e"
  shows "\<exists>w'. searchGitHubOrganizations flags e q m w = Inr w'"
    and "\<exists>w'. searchGitHubRepositories flags e q m w = Inr w'"
    and "\<exists>w'. searchGitHubUsers flags e q m w = Inr w'"
  unfolding searchGitHubOrganizations_def searchGitHubRepositories_def searchGitHubUsers_def Let_def
  by (rule github_search_total [OF assms])+

lemma if_total: "\<exists>w'. a = Inr w' \<Longrightarrow> \<exists>w'. (if b then a else Inr w) = Inr w'"
  by simp

lemma searchGitHub_total:
  assumes np: "names_present e"
  shows "\<exists>w'. searchGitHub flags e client q cfg w = Inr w'"
proof -
  obtain w1 where 1: "(if orgFlag cfg then searchGitHubOrganizations flags e q (maxFlag cfg) w
                       else Inr w) = Inr w1"
    using if_total [OF searchGitHub_functions_total(1) [OF np]] by blast
  obtain w2 where 2: "(if repoFlag cfg then searchGitHubRepositories flags e q (maxFlag cfg) w1
                       else Inr w1) = Inr w2"
    using if_total [OF searchGitHub_functions_total(2) [OF np]] by blast
  obtain w3 where 3: "(if userFlag cfg then searchGitHubUsers flags e q (maxFlag cfg) w2
                       else Inr w2) = Inr w3"
    using if_total [OF searchGitHub_functions_total(3) [OF np]] by blast
  show ?thesis
    by (cases client) (simp_all add: searchGitHub_def 1 2 3)
qed

lemma search_words_total:
  assumes np: "names_present e"
  shows "\<exists>w'. search_words flags e gh gl cfg ws w = Inr w'"
proof (induction ws arbitrary: w)
  case Nil
  show ?case by simp
next
  case (Cons word rest)
  obtain w1 where 1: "(if \<not> glOnlyFlag cfg \<and> snd gh = None
        then searchGitHub flags e (fst gh) word cfg
               (verbosePrint flags (''Searching GitHub for word: '' @ word @ ''\<newline>'') w)
        else Inr w) = Inr w1"
    using if_total [OF searchGitHub_total [OF np]] by blast
  show ?case
    unfolding search_words.simps 1 andThen_simps by (rule Cons.IH)
qed

lemma searchPlatforms_total:
  "names_present e \<Longrightarrow> \<exists>w'. searchPlatforms flags e words cfg w = Inr w'"
  unfolding searchPlatforms_def Let_def by (rule search_words_total)

text \<open>The GitLab functions issue GitLab calls only, in a fixed order.\<close>

lemma print_and_save_calls:
  "github_calls (snd (save_names e name names (printResults flags header names w))) = github_calls w"
  "gitlab_calls (snd (save_names e name names (printResults flags header names w))) = gitlab_calls w"
  by (simp_all add: save_names_calls printResults_simps)

lemma gitlab_users_half_calls:
  "github_calls (gitlab_users_half flags e q m w) = github_calls w"
  "gitlab_calls (gitlab_users_half flags e q m w) = gitlab_calls w @ [ListUsers q m]"
  by (simp_all add: gitlab_users_half_def Let_def print_and_save_calls Print_simps call_api_simps
      split: sum.splits)

lemma searchGitLabGroupsAndUsers_calls:
  "github_calls (searchGitLabGroupsAndUsers flags e q m w) = github_calls w"
  "\<exists>cs. gitlab_calls (searchGitLabGroupsAndUsers flags e q m w) =
          gitlab_calls w @ ListGroups q m # cs"
  by (simp_all add: searchGitLabGroupsAndUsers_halves Let_def gitlab_users_half_calls
      print_and_save_calls Print_simps call_api_simps split: sum.splits)

lemma searchGitLabProjects_calls:
  "github_calls (searchGitLabProjects flags e q m w) = github_calls w"
  "gitlab_calls (searchGitLabProjects flags e q m w) = gitlab_calls w @ [ListProjects q m]"
  by (simp_all add: searchGitLabProjects_def Let_def print_and_save_calls Print_simps
      call_api_simps split: sum.splits)

lemma searchGitLab_calls:
  "github_calls (searchGitLab flags e client q cfg w) = github_calls w"
  "\<exists>cs. gitlab_calls (searchGitLab flags e client q cfg w) = gitlab_calls w @ cs \<and>
        (client \<noteq> None \<longrightarrow>
           (orgFlag cfg \<or> userFlag cfg \<longrightarrow> ListGroups q (maxFlag cfg) \<in> set cs) \<and>
           (repoFlag cfg \<longrightarrow> ListProjects q (maxFlag cfg) \<in> set cs))"
proof -
  show "github_calls (searchGitLab flags e client q cfg w) = github_calls w"
    by (simp add: searchGitLab_def Let_def searchGitLabGroupsAndUsers_calls
        searchGitLabProjects_calls)
  obtain cs where cs: "gitlab_calls (searchGitLabGroupsAndUsers flags e q (maxFlag cfg) w) =
      gitlab_calls w @ ListGroups q (maxFlag cfg) # cs"
    using searchGitLabGroupsAndUsers_calls(2) by blast
  show "\<exists>cs. gitlab_calls (searchGitLab flags e client q cfg w) = gitlab_calls w @ cs \<and>
        (client \<noteq> None \<longrightarrow>
           (orgFlag cfg \<or> userFlag cfg \<longrightarrow> ListGroups q (maxFlag cfg) \<in> set cs) \<and>
           (repoFlag cfg \<longrightarrow> ListProjects q (maxFlag cfg) \<in> set cs))"
    by (cases client) (auto simp: searchGitLab_def Let_def searchGitLabProjects_calls cs)
qed

section \<open>The dispatcher\<close>

lemma search_words_without_github:
  assumes "glOnlyFlag cfg \<or> snd gh \<noteq> None"
  shows "search_words flags e gh gl cfg ws w =
           Inr (fold (\<lambda>word w. if \<not> ghOnlyFlag cfg \<and> snd gl = None
                                then searchGitLab flags e (fst gl) word cfg
                                       (verbosePrint flags
                                          (''Searching GitLab for word: '' @ word @ ''\<newline>'') w)
                                else w) ws w)"
  using assms by (induction ws arbitrary: w) auto

lemma fold_searchGitLab_github_calls:
  "github_calls (fold (\<lambda>word w. if b then searchGitLab flags e client word cfg
                                          (verbosePrint flags (msg word) w)
                                else w) ws w) = github_calls w"
  by (induction ws arbitrary: w) (simp_all add: searchGitLab_calls(1) verbosePrint_simps)

lemma fold_searchGitLab_gitlab_calls:
  "\<exists>cs. gitlab_calls (fold (\<lambda>word w. if b then searchGitLab flags e client word cfg
                                              (verbosePrint flags (msg word) w)
                                    else w) ws w) = gitlab_calls w @ cs \<and>
        (b \<and> client \<noteq> None \<longrightarrow>
           (\<forall>word \<in> set ws.
              (orgFlag cfg \<or> userFlag cfg \<longrightarrow> ListGroups word (maxFlag cfg) \<in> set cs) \<and>
              (repoFlag cfg \<longrightarrow> ListProjects word (maxFlag cfg) \<in> set cs)))"
proof (induction ws arbitrary: w)
  case Nil
  show ?case by simp
next
  case (Cons word ws)
  let ?w1 = "if b then searchGitLab flags e client word cfg (verbosePrint flags (msg word) w) else w"
  have "\<exists>c1. gitlab_calls ?w1 = gitlab_calls w @ c1 \<and>
    (b \<and> client \<noteq> None \<longrightarrow>
       (orgFlag cfg \<or> userFlag cfg \<longrightarrow> ListGroups word (maxFlag cfg) \<in> set c1) \<and>
       (repoFlag cfg \<longrightarrow> ListProjects word (maxFlag cfg) \<in> set c1))"
  proof (cases b)
    case True
    obtain cs where
      "gitlab_calls (searchGitLab flags e client word cfg (verbosePrint flags (msg word) w)) =
         gitlab_calls (verbosePrint flags (msg word) w) @ cs"
      "client \<noteq> None \<longrightarrow>
         (orgFlag cfg \<or> userFlag cfg \<longrightarrow> ListGroups word (maxFlag cfg) \<in> set cs) \<and>
         (repoFlag cfg \<longrightarrow> ListProjects word (maxFlag cfg) \<in> set cs)"
      using searchGitLab_calls(2) [of flags e client word cfg "verbosePrint flags (msg word) w"]
      by (elim exE conjE) (rule that)
    with True show ?thesis
      by (intro exI [of _ cs]) (simp add: verbosePrint_simps)
  next
    case False
    then show ?thesis by simp
  qed
  then obtain c1 where c1: "gitlab_calls ?w1 = gitlab_calls w @ c1"
    "b \<and> client \<noteq> None \<longrightarrow>
       (orgFlag cfg \<or> userFlag cfg \<longrightarrow> ListGroups word (maxFlag cfg) \<in> set c1) \<and>
       (repoFlag cfg \<longrightarrow> ListProjects word (maxFlag cfg) \<in> set c1)"
    by blast
  from Cons.IH [of ?w1] obtain c2 where c2:
    "gitlab_calls (fold (\<lambda>word w. if b then searchGitLab flags e client word cfg
                                            (verbosePrint flags (msg word) w)
                                  else w) ws ?w1) = gitlab_calls ?w1 @ c2"
    "b \<and> client \<noteq> None \<longrightarrow>
         (\<forall>word \<in> set ws.
            (orgFlag cfg \<or> userFlag cfg \<longrightarrow> ListGroups word (maxFlag cfg) \<in> set c2) \<and>
            (repoFlag cfg \<longrightarrow> ListProjects word (maxFlag cfg) \<in> set c2))"
    by blast
  show ?case
  proof (intro exI [of _ "c1 @ c2"] conjI)
    show "gitlab_calls (fold (\<lambda>word w. if b then searchGitLab flags e client word cfg
                                            (verbosePrint flags (msg word) w)
                                  else w) (word # ws) w) = gitlab_calls w @ c1 @ c2"
      using c1(1) c2(1) by simp
    show "b \<and> client \<noteq> None \<longrightarrow>
         (\<forall>word \<in> set (word # ws).
            (orgFlag cfg \<or> userFlag cfg \<longrightarrow> ListGroups word (maxFlag cfg) \<in> set (c1 @ c2)) \<and>
            (repoFlag cfg \<longrightarrow> ListProjects word (maxFlag cfg) \<in> set (c1 @ c2)))"
      using c1(2) c2(2) by auto
  qed
qed

lemma client_error_prints:
  "github_calls (case err of Some x \<Rightarrow> Print (msg x) w | None \<Rightarrow> w) = github_calls w"
  "gitlab_calls (case err of Some x \<Rightarrow> Print (msg x) w | None \<Rightarrow> w) = gitlab_calls w"
  "fs (case err of Some x \<Rightarrow> Print (msg x) w | None \<Rightarrow> w) = fs w"
  by (simp_all add: Print_simps split: option.splits)

text \<open>What \<^verbatim>\<open>main\<close> does once the flags are valid and the input could be read.\<close>

lemma main_after_input:
  assumes "orgFlag flags \<or> repoFlag flags \<or> userFlag flags"
    and "args \<noteq> [] \<or> stdin_err e = None"
  shows "\<exists>words w1. github_calls w1 = github_calls w \<and> gitlab_calls w1 = gitlab_calls w \<and>
           fs w1 = fs w \<and>
           main flags e args w =
             exit_status
               (andThen (searchPlatforms flags e words flags w1)
                  (\<lambda>w. Inr (verbosePrint flags ''Platform search completed.\<newline>'' w)))"
proof (cases "args = []")
  case True
  with assms(2) have noerr: "stdin_err e = None" by simp
  let ?w0 = "verbosePrint flags ''Reading and cleaning words...\<newline>''
               (verbosePrint flags ''Flags validated.\<newline>'' w)"
  let ?w1 = "verbosePrint flags ''Searching platforms...\<newline>''
               (verbosePrint flags ''Words cleaned.\<newline>'' (?w0\<lparr>trace := trace ?w0 @ [Stdin_scan]\<rparr>))"
  let ?words = "fold (\<lambda>line words. processWord (TrimSpace e line) words flags) (stdin_lines e) []"
  have "main flags e args w =
      exit_status (andThen (searchPlatforms flags e ?words flags ?w1)
                    (\<lambda>w. Inr (verbosePrint flags ''Platform search completed.\<newline>'' w)))"
    using assms(1) True noerr
    by (simp add: main_def validateFlags_def readAndCleanWords_def checkScannerError_def Let_def)
  moreover have "github_calls ?w1 = github_calls w" "gitlab_calls ?w1 = gitlab_calls w"
      "fs ?w1 = fs w"
    by (simp_all add: verbosePrint_def Print_def github_calls_def gitlab_calls_def calls_of_append)
  ultimately show ?thesis by blast
next
  case False
  let ?w1 = "verbosePrint flags ''Searching platforms...\<newline>''
               (verbosePrint flags ''Words cleaned.\<newline>''
                  (verbosePrint flags ''Reading and cleaning words...\<newline>''
                     (verbosePrint flags ''Flags validated.\<newline>'' w)))"
  let ?words = "fold (\<lambda>word words. processWord word words flags) args []"
  have "main flags e args w =
      exit_status (andThen (searchPlatforms flags e ?words flags ?w1)
                    (\<lambda>w. Inr (verbosePrint flags ''Platform search completed.\<newline>'' w)))"
    using assms(1) False
    by (simp add: main_def validateFlags_def readAndCleanWords_def Let_def)
  moreover have "github_calls ?w1 = github_calls w" "gitlab_calls ?w1 = gitlab_calls w"
      "fs ?w1 = fs w"
    by (simp_all add: verbosePrint_simps)
  ultimately show ?thesis by blast
qed

text \<open>
  C6. With \<^verbatim>\<open>-gl\<close> set, whatever the environment holds (a GitHub token or none), the
  search loop is the GitLab search alone: it returns normally, equals the iteration of the
  GitLab branch over the words, and issues no GitHub call; so does a whole run.
\<close>

theorem gl_flag_never_searches_github:
  assumes "glOnlyFlag cfg"
  shows "search_words flags e gh gl cfg ws w =
           Inr (fold (\<lambda>word w. if \<not> ghOnlyFlag cfg \<and> snd gl = None
                                then searchGitLab flags e (fst gl) word cfg
                                       (verbosePrint flags
                                          (''Searching GitLab for word: '' @ word @ ''\<newline>'') w)
                                else w) ws w) \<and>
         (\<exists>w'. searchPlatforms flags e words cfg w = Inr w' \<and> github_calls w' = github_calls w) \<and>
         (github_calls (snd (main cfg e args w)) = github_calls w)"
proof -
  have loop: "\<And>gh gl ws w. search_words flags e gh gl cfg ws w =
           Inr (fold (\<lambda>word w. if \<not> ghOnlyFlag cfg \<and> snd gl = None
                                then searchGitLab flags e (fst gl) word cfg
                                       (verbosePrint flags
                                          (''Searching GitLab for word: '' @ word @ ''\<newline>'') w)
                                else w) ws w)"
    using assms by (intro search_words_without_github) simp
  have plat: "\<And>flags words w. \<exists>w'. searchPlatforms flags e words cfg w = Inr w' \<and>
      github_calls w' = github_calls w"
    using assms
    by (simp add: searchPlatforms_def Let_def search_words_without_github
        fold_searchGitLab_github_calls client_error_prints)
  have run: "github_calls (snd (main cfg e args w)) = github_calls w"
  proof (cases "orgFlag cfg \<or> repoFlag cfg \<or> userFlag cfg")
    case False
    then show ?thesis
      by (simp add: main_def validateFlags_def exit_status_def Print_simps)
  next
    case cat: True
    show ?thesis
    proof (cases "args \<noteq> [] \<or> stdin_err e = None")
      case True
      from main_after_input [OF cat True, of w] obtain words w1 where
        w1: "github_calls w1 = github_calls w" and
        m: "main cfg e args w =
             exit_status
               (andThen (searchPlatforms cfg e words cfg w1)
                  (\<lambda>w. Inr (verbosePrint cfg ''Platform search completed.\<newline>'' w)))"
        by blast
      from plat [of cfg words w1] obtain w' where
        "searchPlatforms cfg e words cfg w1 = Inr w'" "github_calls w' = github_calls w1"
        by blast
      with m w1 show ?thesis
        by (simp add: exit_status_def verbosePrint_simps)
    next
      case False
      then obtain err where "args = []" "stdin_err e = Some err" by auto
      with cat show ?thesis
        by (simp add: main_def validateFlags_def readAndCleanWords_def checkScannerError_def
            exit_status_def Let_def verbosePrint_def Print_def github_calls_def calls_of_append)
    qed
  qed
  from loop plat run show ?thesis by blast
qed

text \<open>
  C7. With both \<^verbatim>\<open>-gh\<close> and \<^verbatim>\<open>-gl\<close> set the search loop does nothing at all for any
  word; \<^verbatim>\<open>searchPlatforms\<close> returns normally without a remote call or a file written;
  \<^verbatim>\<open>validateFlags\<close> accepts the flags as soon as a category flag is set, and the run
  then ends with status 0, having issued no remote call.
\<close>

theorem both_platform_flags_search_nothing:
  assumes "ghOnlyFlag cfg" and "glOnlyFlag cfg"
  shows "search_words flags e gh gl cfg ws w = Inr w \<and>
         (\<exists>w'. searchPlatforms flags e words cfg w = Inr w' \<and>
                calls_of (trace w') = calls_of (trace w) \<and> fs w' = fs w) \<and>
         (orgFlag cfg \<or> repoFlag cfg \<or> userFlag cfg \<longrightarrow>
            (\<exists>w'. validateFlags flags cfg w = Inr w')) \<and>
         ((orgFlag cfg \<or> repoFlag cfg \<or> userFlag cfg) \<and> (args \<noteq> [] \<or> stdin_err e = None) \<longrightarrow>
            fst (main cfg e args w) = 0 \<and>
            github_calls (snd (main cfg e args w)) = github_calls w \<and>
            gitlab_calls (snd (main cfg e args w)) = gitlab_calls w \<and>
            fs (snd (main cfg e args w)) = fs w)"
proof -
  have loop: "\<And>flags gh gl ws w. search_words flags e gh gl cfg ws w = Inr w"
  proof -
    fix flags gh gl ws w
    show "search_words flags e gh gl cfg ws w = Inr w"
      using assms by (induction ws arbitrary: w) simp_all
  qed
  have plat: "\<And>flags words w. \<exists>w'. searchPlatforms flags e words cfg w = Inr w' \<and>
                calls_of (trace w') = calls_of (trace w) \<and> fs w' = fs w \<and>
                github_calls w' = github_calls w \<and> gitlab_calls w' = gitlab_calls w"
    by (simp add: searchPlatforms_def Let_def loop Print_simps calls_of_append
        split: option.splits)
  have val: "orgFlag cfg \<or> repoFlag cfg \<or> userFlag cfg \<longrightarrow>
            (\<exists>w'. validateFlags flags cfg w = Inr w')"
    by (simp add: validateFlags_def)
  have run: "(orgFlag cfg \<or> repoFlag cfg \<or> userFlag cfg) \<and> (args \<noteq> [] \<or> stdin_err e = None) \<longrightarrow>
            fst (main cfg e args w) = 0 \<and>
            github_calls (snd (main cfg e args w)) = github_calls w \<and>
            gitlab_calls (snd (main cfg e args w)) = gitlab_calls w \<and>
            fs (snd (main cfg e args w)) = fs w"
  proof
    assume a: "(orgFlag cfg \<or> repoFlag cfg \<or> userFlag cfg) \<and> (args \<noteq> [] \<or> stdin_err e = None)"
    from main_after_input [of cfg args e w] a obtain words w1 where
      w1: "github_calls w1 = github_calls w" "gitlab_calls w1 = gitlab_calls w" "fs w1 = fs w" and
      m: "main cfg e args w =
           exit_status
             (andThen (searchPlatforms cfg e words cfg w1)
                (\<lambda>w. Inr (verbosePrint cfg ''Platform search completed.\<newline>'' w)))"
      by blast
    from plat [of cfg words w1] obtain w' where
      "searchPlatforms cfg e words cfg w1 = Inr w'" "fs w' = fs w1"
      "github_calls w' = github_calls w1" "gitlab_calls w' = gitlab_calls w1"
      by blast
    with m w1 show "fst (main cfg e args w) = 0 \<and>
            github_calls (snd (main cfg e args w)) = github_calls w \<and>
            gitlab_calls (snd (main cfg e args w)) = gitlab_calls w \<and>
            fs (snd (main cfg e args w)) = fs w"
      by (simp add: exit_status_def verbosePrint_simps)
  qed
  from loop [of flags gh gl ws w] plat [of flags words w] val run show ?thesis by blast
qed

text \<open>
  C8. Without any of \<^verbatim>\<open>-o\<close>, \<^verbatim>\<open>-r\<close>, \<^verbatim>\<open>-u\<close> the run ends with status 1 after printing
  one message and nothing else: no scan of standard input, no remote call. With one of them,
  readable input and GitHub answers whose names are all present, the status is 0 whatever the
  tokens are and whichever remote calls, client constructions or file creations fail.
\<close>

theorem exit_status_of_run:
  "(\<not> (orgFlag flags \<or> repoFlag flags \<or> userFlag flags) \<longrightarrow>
      main flags e args w =
        (1, Print ''At least one search flag (-o, -r, or -u) must be specified\<newline>'' w) \<and>
      trace (snd (main flags e args w)) =
        trace w @ [Stdout ''At least one search flag (-o, -r, or -u) must be specified\<newline>'']) \<and>
   ((orgFlag flags \<or> repoFlag flags \<or> userFlag flags) \<and> (args \<noteq> [] \<or> stdin_err e = None) \<and>
    names_present e \<longrightarrow>
      fst (main flags e args w) = 0)"
proof -
  have none: "\<not> (orgFlag flags \<or> repoFlag flags \<or> userFlag flags) \<longrightarrow>
      main flags e args w =
        (1, Print ''At least one search flag (-o, -r, or -u) must be specified\<newline>'' w) \<and>
      trace (snd (main flags e args w)) =
        trace w @ [Stdout ''At least one search flag (-o, -r, or -u) must be specified\<newline>'']"
    by (simp add: main_def validateFlags_def exit_status_def Print_simps)
  have some: "(orgFlag flags \<or> repoFlag flags \<or> userFlag flags) \<and>
      (args \<noteq> [] \<or> stdin_err e = None) \<and> names_present e \<longrightarrow> fst (main flags e args w) = 0"
  proof
    assume a: "(orgFlag flags \<or> repoFlag flags \<or> userFlag flags) \<and>
      (args \<noteq> [] \<or> stdin_err e = None) \<and> names_present e"
    from main_after_input [of flags args e w] a obtain words w1 where
      m: "main flags e args w =
           exit_status
             (andThen (searchPlatforms flags e words flags w1)
                (\<lambda>w. Inr (verbosePrint flags ''Platform search completed.\<newline>'' w)))"
      by blast
    from a searchPlatforms_total [of e flags words flags w1] obtain w' where
      "searchPlatforms flags e words flags w1 = Inr w'" by blast
    with m show "fst (main flags e args w) = 0"
      by (simp add: exit_status_def)
  qed
  from none some show ?thesis by blast
qed

section \<open>The trace only grows\<close>

lemma prefix_Print: "prefix (trace w) (trace (Print s w))"
  by (simp add: Print_simps)

lemma prefix_verbosePrint: "prefix (trace w) (trace (verbosePrint flags s w))"
  by (simp add: verbosePrint_def Print_simps)

lemma prefix_print_and_save:
  "prefix (trace w) (trace (snd (save_names e name names (printResults flags header names w))))"
  by (simp add: save_names_def trace_fold_WriteString os_Create_def Print_simps
      trace_printResults split: option.splits)

lemma prefix_gitlab_users_half: "prefix (trace w) (trace (gitlab_users_half flags e q m w))"
proof -
  have c: "prefix (trace w) (trace (call_api (ListUsers q m) w))"
    by (simp add: call_api_simps)
  show ?thesis
    unfolding gitlab_users_half_def Let_def
    by (auto split: sum.splits
        intro: prefix_order.trans [OF c] prefix_order.trans [OF c prefix_Print]
               prefix_order.trans [OF c prefix_print_and_save])
qed

lemma prefix_searchGitLabGroupsAndUsers:
  "prefix (trace w) (trace (searchGitLabGroupsAndUsers flags e q m w))"
proof -
  have c: "prefix (trace w) (trace (call_api (ListGroups q m) w))"
    by (simp add: call_api_simps)
  show ?thesis
    unfolding searchGitLabGroupsAndUsers_halves Let_def
    by (auto split: sum.splits
        intro: prefix_order.trans [OF c prefix_Print]
               prefix_order.trans [OF c prefix_print_and_save]
               prefix_order.trans [OF c prefix_gitlab_users_half]
               prefix_order.trans [OF prefix_order.trans [OF c prefix_print_and_save]
                                      prefix_gitlab_users_half])
qed

lemma prefix_searchGitLabProjects:
  "prefix (trace w) (trace (searchGitLabProjects flags e q m w))"
proof -
  have c: "prefix (trace w) (trace (call_api (ListProjects q m) w))"
    by (simp add: call_api_simps)
  show ?thesis
    unfolding searchGitLabProjects_def Let_def
    by (auto split: sum.splits
        intro: prefix_order.trans [OF c prefix_Print]
               prefix_order.trans [OF c prefix_print_and_save])
qed

lemma prefix_searchGitLab: "prefix (trace w) (trace (searchGitLab flags e client q cfg w))"
  unfolding searchGitLab_def Let_def
  by (auto intro: prefix_searchGitLabGroupsAndUsers prefix_searchGitLabProjects
      prefix_order.trans [OF prefix_searchGitLabGroupsAndUsers prefix_searchGitLabProjects])

lemma prefix_fold_searchGitLab:
  "prefix (trace w)
     (trace (fold (\<lambda>word w. if b then searchGitLab flags e client word cfg
                                       (verbosePrint flags (msg word) w)
                             else w) ws w))"
proof (induction ws arbitrary: w)
  case Nil
  show ?case by simp
next
  case (Cons word ws)
  have "prefix (trace w)
      (trace (if b then searchGitLab flags e client word cfg (verbosePrint flags (msg word) w)
              else w))"
    by (auto intro: prefix_order.trans [OF prefix_verbosePrint prefix_searchGitLab])
  then show ?case
    unfolding fold_simps by (rule prefix_order.trans) (rule Cons.IH)
qed

text \<open>
  C5. Without \<^verbatim>\<open>GITHUB_ACCESS_TOKEN\<close> the GitHub client is not created, the error is
  printed, and the search returns normally without a single GitHub call. When GitLab is
  not excluded and its client could be made from a present token, the search is exactly
  the GitLab search of every word in turn, and for every word the group listing (with
  \<^verbatim>\<open>-o\<close> or \<^verbatim>\<open>-u\<close>) and the project listing (with \<^verbatim>\<open>-r\<close>) are issued. A run with
  valid flags and readable input ends with status 0.
\<close>

theorem missing_github_token:
  assumes "getenv e ''GITHUB_ACCESS_TOKEN'' = ''''"
  shows "createGitHubClient e =
           (None, Some ''GITHUB_ACCESS_TOKEN environment variable is not set'') \<and>
         (\<exists>w'. searchPlatforms flags e words cfg w = Inr w' \<and>
            (\<exists>rest. trace w' = trace w @
               Stdout ''Error creating GitHub client: GITHUB_ACCESS_TOKEN environment variable is not set\<newline>'' # rest) \<and>
            github_calls w' = github_calls w \<and>
            (getenv e ''GITLAB_ACCESS_TOKEN'' \<noteq> '''' \<and>
             gitlab_NewClient_err e (getenv e ''GITLAB_ACCESS_TOKEN'') = None \<and>
             \<not> ghOnlyFlag cfg \<longrightarrow>
               w' = fold (\<lambda>word w. searchGitLab flags e
                                     (Some (GitLab_Client (getenv e ''GITLAB_ACCESS_TOKEN''))) word cfg
                                     (verbosePrint flags
                                        (''Searching GitLab for word: '' @ word @ ''\<newline>'') w))
                      (range_order e words)
                      (Print ''Error creating GitHub client: GITHUB_ACCESS_TOKEN environment variable is not set\<newline>'' w) \<and>
               (\<exists>cs. gitlab_calls w' = gitlab_calls w @ cs \<and>
                  (\<forall>word \<in> set (range_order e words).
                     (orgFlag cfg \<or> userFlag cfg \<longrightarrow> ListGroups word (maxFlag cfg) \<in> set cs) \<and>
                     (repoFlag cfg \<longrightarrow> ListProjects word (maxFlag cfg) \<in> set cs))))) \<and>
         ((orgFlag cfg \<or> repoFlag cfg \<or> userFlag cfg) \<and> (args \<noteq> [] \<or> stdin_err e = None) \<longrightarrow>
            fst (main cfg e args w) = 0)"
proof -
  let ?msg = "''Error creating GitHub client: GITHUB_ACCESS_TOKEN environment variable is not set\<newline>''"
  let ?gl = "createGitLabClient e"
  let ?step = "\<lambda>word w. if \<not> ghOnlyFlag cfg \<and> snd ?gl = None
                          then searchGitLab flags e (fst ?gl) word cfg
                                 (verbosePrint flags
                                    (''Searching GitLab for word: '' @ word @ ''\<newline>'') w)
                          else w"
  have gh: "createGitHubClient e =
      (None, Some ''GITHUB_ACCESS_TOKEN environment variable is not set'')"
    using assms by (simp add: createGitHubClient_def)
  have plat: "\<And>flags words w. searchPlatforms flags e words cfg w =
      Inr (fold (\<lambda>word w. if \<not> ghOnlyFlag cfg \<and> snd ?gl = None
                          then searchGitLab flags e (fst ?gl) word cfg
                                 (verbosePrint flags
                                    (''Searching GitLab for word: '' @ word @ ''\<newline>'') w)
                          else w) (range_order e words)
             (case snd ?gl of
                Some glErr \<Rightarrow> Print (''Error creating GitLab client: '' @ glErr @ ''\<newline>'') (Print ?msg w)
              | None \<Rightarrow> Print ?msg w))"
    by (simp add: searchPlatforms_def Let_def gh search_words_without_github
        split: option.splits)
  let ?w0 = "case snd ?gl of
               Some glErr \<Rightarrow> Print (''Error creating GitLab client: '' @ glErr @ ''\<newline>'') (Print ?msg w)
             | None \<Rightarrow> Print ?msg w"
  let ?w' = "fold ?step (range_order e words) ?w0"
  have res: "searchPlatforms flags e words cfg w = Inr ?w'"
    by (rule plat)
  have "prefix (trace (Print ?msg w)) (trace ?w0)"
    by (simp add: Print_simps split: option.splits)
  moreover have "prefix (trace ?w0) (trace ?w')"
    by (rule prefix_fold_searchGitLab)
  ultimately have "prefix (trace w @ [Stdout ?msg]) (trace ?w')"
    by (simp add: Print_simps)
  then have printed: "\<exists>rest. trace ?w' = trace w @ Stdout ?msg # rest"
    by (auto simp: prefix_def)
  have nogh: "github_calls ?w' = github_calls w"
    by (simp add: fold_searchGitLab_github_calls client_error_prints Print_simps)
  have proceed: "getenv e ''GITLAB_ACCESS_TOKEN'' \<noteq> '''' \<and>
             gitlab_NewClient_err e (getenv e ''GITLAB_ACCESS_TOKEN'') = None \<and>
             \<not> ghOnlyFlag cfg \<longrightarrow>
               ?w' = fold (\<lambda>word w. searchGitLab flags e
                                     (Some (GitLab_Client (getenv e ''GITLAB_ACCESS_TOKEN''))) word cfg
                                     (verbosePrint flags
                                        (''Searching GitLab for word: '' @ word @ ''\<newline>'') w))
                      (range_order e words) (Print ?msg w) \<and>
               (\<exists>cs. gitlab_calls ?w' = gitlab_calls w @ cs \<and>
                  (\<forall>word \<in> set (range_order e words).
                     (orgFlag cfg \<or> userFlag cfg \<longrightarrow> ListGroups word (maxFlag cfg) \<in> set cs) \<and>
                     (repoFlag cfg \<longrightarrow> ListProjects word (maxFlag cfg) \<in> set cs)))"
  proof
    assume a: "getenv e ''GITLAB_ACCESS_TOKEN'' \<noteq> '''' \<and>
             gitlab_NewClient_err e (getenv e ''GITLAB_ACCESS_TOKEN'') = None \<and>
             \<not> ghOnlyFlag cfg"
    then have gl: "?gl = (Some (GitLab_Client (getenv e ''GITLAB_ACCESS_TOKEN'')), None)"
      by (simp add: createGitLabClient_def Let_def)
    have eq: "?w' = fold (\<lambda>word w. searchGitLab flags e
                                     (Some (GitLab_Client (getenv e ''GITLAB_ACCESS_TOKEN''))) word cfg
                                     (verbosePrint flags
                                        (''Searching GitLab for word: '' @ word @ ''\<newline>'') w))
                      (range_order e words) (Print ?msg w)"
      using a unfolding gl by simp
    from fold_searchGitLab_gitlab_calls [of "\<not> ghOnlyFlag cfg \<and> snd ?gl = None" flags e "fst ?gl" cfg
        "\<lambda>word. ''Searching GitLab for word: '' @ word @ ''\<newline>''" "range_order e words" ?w0]
    obtain cs where cs: "gitlab_calls ?w' = gitlab_calls ?w0 @ cs"
      "\<forall>word \<in> set (range_order e words).
         (orgFlag cfg \<or> userFlag cfg \<longrightarrow> ListGroups word (maxFlag cfg) \<in> set cs) \<and>
         (repoFlag cfg \<longrightarrow> ListProjects word (maxFlag cfg) \<in> set cs)"
      using a unfolding gl by auto
    have "gitlab_calls ?w0 = gitlab_calls w"
      by (simp add: client_error_prints Print_simps)
    with cs eq show "?w' = fold (\<lambda>word w. searchGitLab flags e
                                     (Some (GitLab_Client (getenv e ''GITLAB_ACCESS_TOKEN''))) word cfg
                                     (verbosePrint flags
                                        (''Searching GitLab for word: '' @ word @ ''\<newline>'') w))
                      (range_order e words) (Print ?msg w) \<and>
               (\<exists>cs. gitlab_calls ?w' = gitlab_calls w @ cs \<and>
                  (\<forall>word \<in> set (range_order e words).
                     (orgFlag cfg \<or> userFlag cfg \<longrightarrow> ListGroups word (maxFlag cfg) \<in> set cs) \<and>
                     (repoFlag cfg \<longrightarrow> ListProjects word (maxFlag cfg) \<in> set cs)))"
      by auto
  qed
  have run: "(orgFlag cfg \<or> repoFlag cfg \<or> userFlag cfg) \<and> (args \<noteq> [] \<or> stdin_err e = None) \<longrightarrow>
            fst (main cfg e args w) = 0"
  proof
    assume a: "(orgFlag cfg \<or> repoFlag cfg \<or> userFlag cfg) \<and> (args \<noteq> [] \<or> stdin_err e = None)"
    from main_after_input [of cfg args e w] a obtain words w1 where
      m: "main cfg e args w =
           exit_status
             (andThen (searchPlatforms cfg e words cfg w1)
                (\<lambda>w. Inr (verbosePrint cfg ''Platform search completed.\<newline>'' w)))"
      by blast
    show "fst (main cfg e args w) = 0"
      unfolding m plat by (simp add: exit_status_def)
  qed
  from gh res printed nogh proceed run show ?thesis
    by (intro conjI exI [of _ ?w']) assumption+
qed

lemma fs_gitlab_users_half:
  "F \<noteq> ''gitlab_users.txt'' \<Longrightarrow> fs (gitlab_users_half flags e q m w) F = fs w F"
  by (simp add: gitlab_users_half_def Let_def save_names_other_file printResults_simps
      Print_simps call_api_simps split: sum.splits)

text \<open>
  C10. With \<^verbatim>\<open>-u\<close> and without \<^verbatim>\<open>-o\<close> the GitLab flow of a word runs
  \<^verbatim>\<open>searchGitLabGroupsAndUsers\<close>, whose first remote call is the group listing. When that
  call fails the function prints the error and returns, and the user listing is not called.
  When it succeeds, its result is not used: nothing is printed or written for it, the
  function goes on as its second half from the world in which only the call was made, and
  the user listing is the next call. The group file is untouched either way.
\<close>

theorem gitlab_user_search_behind_group_search:
  assumes "userFlag flags" and "\<not> orgFlag flags"
  shows "searchGitLab flags e (Some client) q flags w =
           (if repoFlag flags
            then searchGitLabProjects flags e q (maxFlag flags)
                   (searchGitLabGroupsAndUsers flags e q (maxFlag flags) w)
            else searchGitLabGroupsAndUsers flags e q (maxFlag flags) w) \<and>
         (case gitlab_api e (length (trace w)) (ListGroups q m) of
            Inl err \<Rightarrow>
              searchGitLabGroupsAndUsers flags e q m w =
                Print (''Error searching GitLab groups: '' @ err @ ''\<newline>'')
                  (call_api (ListGroups q m) w) \<and>
              gitlab_calls (searchGitLabGroupsAndUsers flags e q m w) =
                gitlab_calls w @ [ListGroups q m]
          | Inr groups \<Rightarrow>
              searchGitLabGroupsAndUsers flags e q m w =
                gitlab_users_half flags e q m (call_api (ListGroups q m) w) \<and>
              gitlab_calls (searchGitLabGroupsAndUsers flags e q m w) =
                gitlab_calls w @ [ListGroups q m, ListUsers q m]) \<and>
         fs (searchGitLabGroupsAndUsers flags e q m w) ''gitlab_groups.txt'' =
           fs w ''gitlab_groups.txt''"
proof -
  have flow: "searchGitLab flags e (Some client) q flags w =
           (if repoFlag flags
            then searchGitLabProjects flags e q (maxFlag flags)
                   (searchGitLabGroupsAndUsers flags e q (maxFlag flags) w)
            else searchGitLabGroupsAndUsers flags e q (maxFlag flags) w)"
    using assms by (simp add: searchGitLab_def Let_def)
  have calls: "case gitlab_api e (length (trace w)) (ListGroups q m) of
            Inl err \<Rightarrow>
              searchGitLabGroupsAndUsers flags e q m w =
                Print (''Error searching GitLab groups: '' @ err @ ''\<newline>'')
                  (call_api (ListGroups q m) w) \<and>
              gitlab_calls (searchGitLabGroupsAndUsers flags e q m w) =
                gitlab_calls w @ [ListGroups q m]
          | Inr groups \<Rightarrow>
              searchGitLabGroupsAndUsers flags e q m w =
                gitlab_users_half flags e q m (call_api (ListGroups q m) w) \<and>
              gitlab_calls (searchGitLabGroupsAndUsers flags e q m w) =
                gitlab_calls w @ [ListGroups q m, ListUsers q m]"
    using assms
    by (simp add: searchGitLabGroupsAndUsers_halves gitlab_users_half_calls Print_simps
        call_api_simps split: sum.splits)
  have untouched: "fs (searchGitLabGroupsAndUsers flags e q m w) ''gitlab_groups.txt'' =
           fs w ''gitlab_groups.txt''"
    using assms
    by (simp add: searchGitLabGroupsAndUsers_halves fs_gitlab_users_half Print_simps
        call_api_simps split: sum.splits)
  from flow calls untouched show ?thesis by blast
qed

section \<open>The example inputs\<close>

lemma flags_gl_sel:
  "orgFlag flags_gl = False" "repoFlag flags_gl = True" "userFlag flags_gl = False"
  "maxFlag flags_gl = 10" "cleanFlag flags_gl = False" "ghOnlyFlag flags_gl = False"
  "glOnlyFlag flags_gl = True" "simpleFlag flags_gl = True" "verboseFlag flags_gl = False"
  by (simp_all add: flags_gl_def flags_repo_def)

lemma flags_both_sel:
  "orgFlag flags_both = False" "repoFlag flags_both = True" "userFlag flags_both = False"
  "maxFlag flags_both = 10" "cleanFlag flags_both = False" "ghOnlyFlag flags_both = True"
  "glOnlyFlag flags_both = True" "simpleFlag flags_both = True" "verboseFlag flags_both = False"
  by (simp_all add: flags_both_def flags_repo_def)

lemma flags_none_sel:
  "orgFlag flags_none = False" "repoFlag flags_none = False" "userFlag flags_none = False"
  by (simp_all add: flags_none_def flags_repo_def)

lemma flags_user_sel:
  "orgFlag flags_user = False" "repoFlag flags_user = False" "userFlag flags_user = True"
  "maxFlag flags_user = 10" "cleanFlag flags_user = False" "ghOnlyFlag flags_user = False"
  "glOnlyFlag flags_user = False" "simpleFlag flags_user = True" "verboseFlag flags_user = False"
  by (simp_all add: flags_user_def)

lemma flags_ex_sel:
  "orgFlag flags_ex = True" "repoFlag flags_ex = False" "userFlag flags_ex = True"
  "maxFlag flags_ex = 10" "cleanFlag flags_ex = False" "ghOnlyFlag flags_ex = False"
  "glOnlyFlag flags_ex = False" "simpleFlag flags_ex = True" "verboseFlag flags_ex = False"
  by (simp_all add: flags_ex_def)

lemma env_groups_down_sel:
  "getenv env_groups_down ''GITHUB_ACCESS_TOKEN'' = ''''"
  "getenv env_groups_down ''GITLAB_ACCESS_TOKEN'' = ''gl-token''"
  "stdin_lines env_groups_down = []" "stdin_err env_groups_down = None"
  "range_order env_groups_down ws = ws"
  "gitlab_api env_groups_down n (ListGroups q m) = Inl ''503 Service Unavailable''"
  "gitlab_api env_groups_down n (ListUsers q m) = Inr [q]"
  "gitlab_api env_groups_down n (ListProjects q m) = Inr [q]"
  "gitlab_NewClient_err env_groups_down t = None"
  "os_Create_err env_groups_down n f = None"
  by (simp_all add: env_groups_down_def env_ok_def)

lemma flags_holds:
  "glOnlyFlag flags_gl" "ghOnlyFlag flags_both" "glOnlyFlag flags_both" "userFlag flags_user"
  "\<not> orgFlag flags_user" "userFlag flags_ex" "orgFlag flags_ex"
  by (simp_all add: flags_gl_sel flags_both_sel flags_user_sel flags_ex_sel)

lemma names_present_env_ok: "names_present env_ok"
  by (simp add: names_present_def env_ok_def split: api_call.splits)

lemma world0_sel:
  "trace world0 = []" "fs world0 = Map.empty" "github_calls world0 = []" "gitlab_calls world0 = []"
  by (simp_all add: world0_def github_calls_def gitlab_calls_def)

theorem missing_github_token_witness:
  "getenv env_groups_down ''GITHUB_ACCESS_TOKEN'' = '''' \<and>
   getenv env_groups_down ''GITLAB_ACCESS_TOKEN'' \<noteq> '''' \<and>
   gitlab_NewClient_err env_groups_down (getenv env_groups_down ''GITLAB_ACCESS_TOKEN'') = None \<and>
   \<not> ghOnlyFlag flags_repo \<and>
   fst (main flags_repo env_groups_down [''a'', ''b''] world0) = 0 \<and>
   trace (world_of (searchPlatforms flags_repo env_groups_down [''a'', ''b''] flags_repo world0)) =
     [Stdout ''Error creating GitHub client: GITHUB_ACCESS_TOKEN environment variable is not set\<newline>'',
      Api (ListProjects ''a'' 10), Stdout ''a\<newline>'',
      Api (ListProjects ''b'' 10), Stdout ''b\<newline>'']"
proof -
  note inst = missing_github_token [of env_groups_down flags_repo "[''a'', ''b'']" flags_repo world0
      "[''a'', ''b'']", OF env_groups_down_sel(1)]
  from inst have code: "fst (main flags_repo env_groups_down [''a'', ''b''] world0) = 0"
    by (simp add: flags_repo_sel)
  from inst have "world_of (searchPlatforms flags_repo env_groups_down [''a'', ''b''] flags_repo world0) =
      fold (\<lambda>word w. searchGitLab flags_repo env_groups_down (Some (GitLab_Client ''gl-token'')) word
                         flags_repo
                         (verbosePrint flags_repo (''Searching GitLab for word: '' @ word @ ''\<newline>'') w))
        [''a'', ''b'']
        (Print ''Error creating GitHub client: GITHUB_ACCESS_TOKEN environment variable is not set\<newline>''
           world0)"
    by (auto simp: flags_repo_sel env_groups_down_sel)
  then have "trace (world_of (searchPlatforms flags_repo env_groups_down [''a'', ''b''] flags_repo world0)) =
     [Stdout ''Error creating GitHub client: GITHUB_ACCESS_TOKEN environment variable is not set\<newline>'',
      Api (ListProjects ''a'' 10), Stdout ''a\<newline>'',
      Api (ListProjects ''b'' 10), Stdout ''b\<newline>'']"
    by (simp add: searchGitLab_def searchGitLabProjects_def save_names_def printResults_def
        verbosePrint_def call_api_def Print_def os_Create_def WriteString_def
        flags_repo_sel env_groups_down_sel world0_def Let_def)
  with code show ?thesis
    by (simp add: env_groups_down_sel flags_repo_sel)
qed

theorem gl_flag_never_searches_github_witness:
  "glOnlyFlag flags_gl \<and> getenv env_ok ''GITHUB_ACCESS_TOKEN'' = ''gh-token'' \<and>
   github_calls (snd (main flags_gl env_ok [''a'', ''b''] world0)) = [] \<and>
   github_calls (world_of (searchPlatforms flags_gl env_ok [''a'', ''b''] flags_gl world0)) = []"
  using gl_flag_never_searches_github [of flags_gl flags_gl env_ok "createGitHubClient env_ok"
      "createGitLabClient env_ok" "[''a'', ''b'']" world0 "[''a'', ''b'']" "[''a'', ''b'']",
      OF flags_holds(1)]
  by (auto simp: flags_gl_sel env_ok_sel world0_sel)

theorem both_platform_flags_search_nothing_witness:
  "ghOnlyFlag flags_both \<and> glOnlyFlag flags_both \<and>
   (orgFlag flags_both \<or> repoFlag flags_both \<or> userFlag flags_both) \<and>
   fst (main flags_both env_ok [''a'', ''b''] world0) = 0 \<and>
   github_calls (snd (main flags_both env_ok [''a'', ''b''] world0)) = [] \<and>
   gitlab_calls (snd (main flags_both env_ok [''a'', ''b''] world0)) = [] \<and>
   fs (snd (main flags_both env_ok [''a'', ''b''] world0)) = Map.empty"
  using both_platform_flags_search_nothing [of flags_both flags_both env_ok
      "createGitHubClient env_ok" "createGitLabClient env_ok" "[''a'', ''b'']" world0
      "[''a'', ''b'']" "[''a'', ''b'']", OF flags_holds(2) flags_holds(3)]
  by (simp add: flags_both_sel world0_sel)

theorem exit_status_of_run_witness:
  "\<not> (orgFlag flags_none \<or> repoFlag flags_none \<or> userFlag flags_none) \<and>
   main flags_none env_ok [''a'', ''b''] world0 =
     (1, Print ''At least one search flag (-o, -r, or -u) must be specified\<newline>'' world0) \<and>
   (orgFlag flags_repo \<or> repoFlag flags_repo \<or> userFlag flags_repo) \<and>
   names_present env_ok \<and>
   fst (main flags_repo env_ok [''a'', ''b''] world0) = 0"
  using exit_status_of_run [of flags_none env_ok "[''a'', ''b'']" world0]
        exit_status_of_run [of flags_repo env_ok "[''a'', ''b'']" world0]
  by (simp add: flags_none_sel flags_repo_sel names_present_env_ok)

theorem gitlab_user_search_behind_group_search_witness:
  "userFlag flags_user \<and> \<not> orgFlag flags_user \<and>
   gitlab_api env_groups_down (length (trace world0)) (ListGroups ''acme'' 10) =
     Inl ''503 Service Unavailable'' \<and>
   gitlab_calls (searchGitLabGroupsAndUsers flags_user env_groups_down ''acme'' 10 world0) =
     [ListGroups ''acme'' 10] \<and>
   gitlab_api env_ok (length (trace world0)) (ListGroups ''acme'' 10) = Inr [''acme''] \<and>
   gitlab_calls (searchGitLabGroupsAndUsers flags_user env_ok ''acme'' 10 world0) =
     [ListGroups ''acme'' 10, ListUsers ''acme'' 10] \<and>
   fs (searchGitLabGroupsAndUsers flags_user env_ok ''acme'' 10 world0) ''gitlab_groups.txt'' = None"
  using gitlab_user_search_behind_group_search [of flags_user env_groups_down
          "GitLab_Client ''gl-token''" "''acme''" world0 10, OF flags_holds(4) flags_holds(5)]
        gitlab_user_search_behind_group_search [of flags_user env_ok
          "GitLab_Client ''gl-token''" "''acme''" world0 10, OF flags_holds(4) flags_holds(5)]
  by (simp add: flags_user_sel env_groups_down_sel env_ok_sel world0_sel gitlab_users_half_calls
      fs_gitlab_users_half Print_simps call_api_simps)

section \<open>Errors of remote calls\<close>

text \<open>
  What every search function does when its remote call fails: the call and one diagnostic
  are the only effects, no file changes, and the function returns normally.
\<close>

lemma api_error_prints_and_returns:
  "github_api e (length (trace w)) (Search_Users (''type:org '' @ q) m) = Inl err \<Longrightarrow>
     searchGitHubOrganizations flags e q m w =
       Inr (Print (''Error searching organizations: '' @ err @ ''\<newline>'')
              (call_api (Search_Users (''type:org '' @ q) m) w))"
  "github_api e (length (trace w)) (Search_Repositories q m) = Inl err \<Longrightarrow>
     searchGitHubRepositories flags e q m w =
       Inr (Print (''Error searching repositories: '' @ err @ ''\<newline>'')
              (call_api (Search_Repositories q m) w))"
  "github_api e (length (trace w)) (Search_Users (''type:user '' @ q) m) = Inl err \<Longrightarrow>
     searchGitHubUsers flags e q m w =
       Inr (Print (''Error searching users: '' @ err @ ''\<newline>'')
              (call_api (Search_Users (''type:user '' @ q) m) w))"
  "gitlab_api e (length (trace w)) (ListGroups q m) = Inl err \<Longrightarrow>
     searchGitLabGroupsAndUsers flags e q m w =
       Print (''Error searching GitLab groups: '' @ err @ ''\<newline>'') (call_api (ListGroups q m) w)"
  "gitlab_api e (length (trace w)) (ListUsers q m) = Inl err \<Longrightarrow>
     gitlab_users_half flags e q m w =
       Print (''Error searching GitLab users: '' @ err @ ''\<newline>'') (call_api (ListUsers q m) w)"
  "gitlab_api e (length (trace w)) (ListProjects q m) = Inl err \<Longrightarrow>
     searchGitLabProjects flags e q m w =
       Print (''Error searching GitLab projects: '' @ err @ ''\<newline>'')
         (call_api (ListProjects q m) w)"
  "fs (Print s (call_api c w)) = fs w"
  "trace (Print s (call_api c w)) = trace w @ [Api c, Stdout s]"
  by (simp_all add: searchGitHubOrganizations_def searchGitHubRepositories_def
      searchGitHubUsers_def searchGitLabGroupsAndUsers_def gitlab_users_half_def
      searchGitLabProjects_def Let_def Print_simps call_api_simps)

lemma env_org_down_sel:
  "github_api env_org_down n (Search_Users (''type:org '' @ q) m) = Inl ''403 Forbidden''"
  "github_api env_org_down n (Search_Users (''type:user '' @ q) m) = Inr [Some ''acme'']"
  "os_Create_err env_org_down n f = None"
  by (simp_all add: env_org_down_def env_ok_def)

lemma words_acme:
  "cleanFlag cfg = False \<Longrightarrow> readAndCleanWords e cfg [''acme''] w = Inr ([''acme''], w)"
  by (simp add: readAndCleanWords_def processWord_def Split_removeWhitespace
      addWordToMap_def ReplaceAllString_def spaceRegexp_def ReplaceAll_at_Plus_Cons is_space_def
      del: ReplaceAll_at.simps(2))

text \<open>
  C2. A run with \<^verbatim>\<open>-u\<close> for the word \<^verbatim>\<open>acme\<close> in which GitLab's group listing fails
  while its user listing would succeed: after the diagnostic of the group listing the
  function returns, the user listing is never called, no user is printed and
  \<^verbatim>\<open>gitlab_users.txt\<close> is not written. The run itself goes on and ends with status 0. On
  GitHub, by contrast, a failed organization search is followed by the user search of the
  same word, whose results are printed and saved.
\<close>

theorem gitlab_group_error_skips_user_search:
  "userFlag flags_user \<and>
   gitlab_api env_groups_down 1 (ListGroups ''acme'' 10) = Inl ''503 Service Unavailable'' \<and>
   gitlab_api env_groups_down 2 (ListUsers ''acme'' 10) = Inr [''acme''] \<and>
   fst (main flags_user env_groups_down [''acme''] world0) = 0 \<and>
   trace (snd (main flags_user env_groups_down [''acme''] world0)) =
     [Stdout ''Error creating GitHub client: GITHUB_ACCESS_TOKEN environment variable is not set\<newline>'',
      Api (ListGroups ''acme'' 10),
      Stdout ''Error searching GitLab groups: 503 Service Unavailable\<newline>''] \<and>
   fs (snd (main flags_user env_groups_down [''acme''] world0)) ''gitlab_users.txt'' = None \<and>
   trace (world_of (searchGitHub flags_ex env_org_down (Some (GitHub_Client ''gh-token'')) ''acme''
                      flags_ex world0)) =
     [Api (Search_Users ''type:org acme'' 10),
      Stdout ''Error searching organizations: 403 Forbidden\<newline>'',
      Api (Search_Users ''type:user acme'' 10),
      Stdout ''acme\<newline>''] \<and>
   fs (world_of (searchGitHub flags_ex env_org_down (Some (GitHub_Client ''gh-token'')) ''acme''
                   flags_ex world0)) ''github_users.txt'' = Some ''acme\<newline>''"
proof -
  have run: "main flags_user env_groups_down [''acme''] world0 =
      (0, \<lparr>trace =
             [Stdout ''Error creating GitHub client: GITHUB_ACCESS_TOKEN environment variable is not set\<newline>'',
              Api (ListGroups ''acme'' 10),
              Stdout ''Error searching GitLab groups: 503 Service Unavailable\<newline>''],
           fs = Map.empty\<rparr>)"
    by (simp add: main_def words_acme validateFlags_def verbosePrint_def searchPlatforms_def
        createGitHubClient_def createGitLabClient_def searchGitLab_def
        searchGitLabGroupsAndUsers_def call_api_def Print_def exit_status_def
        flags_user_sel env_groups_down_sel world0_def Let_def)
  have org: "searchGitHubOrganizations flags_ex env_org_down ''acme'' 10 world0 =
      Inr \<lparr>trace = [Api (Search_Users ''type:org acme'' 10),
                     Stdout ''Error searching organizations: 403 Forbidden\<newline>''],
           fs = Map.empty\<rparr>"
    using env_org_down_sel(1) [of 0 "''acme''" 10]
    by (simp add: searchGitHubOrganizations_def call_api_def Print_def world0_def Let_def)
  have usr: "searchGitHubUsers flags_ex env_org_down ''acme'' 10
      \<lparr>trace = [Api (Search_Users ''type:org acme'' 10),
                 Stdout ''Error searching organizations: 403 Forbidden\<newline>''],
       fs = Map.empty\<rparr> =
      Inr \<lparr>trace = [Api (Search_Users ''type:org acme'' 10),
                     Stdout ''Error searching organizations: 403 Forbidden\<newline>'',
                     Api (Search_Users ''type:user acme'' 10),
                     Stdout ''acme\<newline>''],
           fs = [''github_users.txt'' \<mapsto> ''acme\<newline>'']\<rparr>"
    using env_org_down_sel(2) [of "Suc (Suc 0)" "''acme''" 10]
    by (simp add: searchGitHubUsers_def save_names_def printResults_def call_api_def Print_def
        os_Create_def WriteString_def flags_ex_sel env_org_down_sel(3) Let_def)
  have gh: "searchGitHub flags_ex env_org_down (Some (GitHub_Client ''gh-token'')) ''acme''
      flags_ex world0 =
      Inr \<lparr>trace = [Api (Search_Users ''type:org acme'' 10),
                     Stdout ''Error searching organizations: 403 Forbidden\<newline>'',
                     Api (Search_Users ''type:user acme'' 10),
                     Stdout ''acme\<newline>''],
           fs = [''github_users.txt'' \<mapsto> ''acme\<newline>'']\<rparr>"
    by (simp add: searchGitHub_def flags_ex_sel org usr)
  show ?thesis
    by (simp add: run gh flags_holds env_groups_down_sel)
qed

end
